theory Spec2Isabelle
  imports Complex_Main "HOL-Library.Product_Lexorder" "HOL-Library.Sublist"
begin

section \<open>Python strings\<close>

text \<open>
  A Python \<^verbatim>\<open>str\<close> is a sequence of code points. It is modelled as a \<^typ>\<open>string\<close> whose
  characters are the code points U+0000 to U+00FF; the character classes below are
  Python's on that range. The typographic apostrophe (U+2019) and dash (U+2014) occur
  only in the fixed texts of the program and are written there as their UTF-8 bytes.
\<close>

definition code :: "char \<Rightarrow> nat" where
  "code c = of_char c"

text \<open>\<^verbatim>\<open>str.isspace\<close>, which is also the class \<^verbatim>\<open>\s\<close> of \<^verbatim>\<open>re\<close> on \<^verbatim>\<open>str\<close> patterns.\<close>

definition isspace :: "char \<Rightarrow> bool" where
  "isspace c = (let n = code c in
     (9 \<le> n \<and> n \<le> 13) \<or> (28 \<le> n \<and> n \<le> 32) \<or> n = 133 \<or> n = 160)"

definition is_upper_az :: "char \<Rightarrow> bool" where
  "is_upper_az c = (65 \<le> code c \<and> code c \<le> 90)"

definition is_lower_az :: "char \<Rightarrow> bool" where
  "is_lower_az c = (97 \<le> code c \<and> code c \<le> 122)"

definition is_digit_09 :: "char \<Rightarrow> bool" where
  "is_digit_09 c = (48 \<le> code c \<and> code c \<le> 57)"

definition is_letter_az :: "char \<Rightarrow> bool" where
  "is_letter_az c = (is_upper_az c \<or> is_lower_az c)"

text \<open>The class \<^verbatim>\<open>\w\<close> of \<^verbatim>\<open>re\<close> on \<^verbatim>\<open>str\<close> patterns: \<^verbatim>\<open>str.isalnum\<close> or the underscore.\<close>

definition isword :: "char \<Rightarrow> bool" where
  "isword c = (let n = code c in
     is_letter_az c \<or> is_digit_09 c \<or> n = 95 \<or>
     n = 170 \<or> n = 178 \<or> n = 179 \<or> n = 181 \<or> n = 185 \<or> n = 186 \<or>
     (188 \<le> n \<and> n \<le> 190) \<or> (192 \<le> n \<and> n \<le> 214) \<or>
     (216 \<le> n \<and> n \<le> 246) \<or> (248 \<le> n \<and> n \<le> 255))"

text \<open>\<^verbatim>\<open>str.lower\<close>, one code point at a time.\<close>

definition lower_char :: "char \<Rightarrow> char" where
  "lower_char c = (let n = code c in
     if (65 \<le> n \<and> n \<le> 90) \<or> (192 \<le> n \<and> n \<le> 214) \<or> (216 \<le> n \<and> n \<le> 222)
     then char_of (n + 32) else c)"

definition py_lower :: "string \<Rightarrow> string" where
  "py_lower s = map lower_char s"

text \<open>\<^verbatim>\<open>str.strip()\<close> with no argument.\<close>

definition py_strip :: "string \<Rightarrow> string" where
  "py_strip s = rev (dropWhile isspace (rev (dropWhile isspace s)))"

text \<open>\<^verbatim>\<open>s.strip(".")\<close>.\<close>

definition strip_dots :: "string \<Rightarrow> string" where
  "strip_dots s =
     rev (dropWhile (\<lambda>c. c = CHR ''.'') (rev (dropWhile (\<lambda>c. c = CHR ''.'') s)))"

text \<open>
  \<^verbatim>\<open>str.split()\<close> with no argument: the maximal runs of non-space characters, from
  left to right. The word being read is kept reversed in \<open>w\<close>.
\<close>

fun split_from :: "string \<Rightarrow> string \<Rightarrow> string list" where
  "split_from w [] = (if w = [] then [] else [rev w])"
| "split_from w (c # cs) =
     (if isspace c then (if w = [] then split_from [] cs else rev w # split_from [] cs)
      else split_from (c # w) cs)"

definition py_split :: "string \<Rightarrow> string list" where
  "py_split s = split_from [] s"

text \<open>
  \<^verbatim>\<open>re.sub(C+, r, s)\<close> for a character class \<open>C\<close>: every maximal run of characters of
  the class is replaced by \<open>r\<close>.
\<close>

function re_sub_class :: "(char \<Rightarrow> bool) \<Rightarrow> string \<Rightarrow> string \<Rightarrow> string" where
  "re_sub_class P r [] = []"
| "re_sub_class P r (c # cs) =
     (if P c then r @ re_sub_class P r (dropWhile P cs) else c # re_sub_class P r cs)"
  by pat_completeness auto
termination
proof (relation "measure (\<lambda>(P, r, s). length s)")
  show "wf (measure (\<lambda>(P, r, s). length s))" by simp
next
  fix P :: "char \<Rightarrow> bool" and r :: string and c cs
  show "((P, r, dropWhile P cs), (P, r, c # cs)) \<in> measure (\<lambda>(P, r, s). length s)"
    using length_dropWhile_le [of P cs] by simp
next
  fix P :: "char \<Rightarrow> bool" and r :: string and c :: char and cs
  show "((P, r, cs), (P, r, c # cs)) \<in> measure (\<lambda>(P, r, s). length s)"
    by simp
qed

text \<open>\<^verbatim>\<open>re.sub(r"\s+", " ", s)\<close>.\<close>

definition collapse_ws :: "string \<Rightarrow> string" where
  "collapse_ws s = re_sub_class isspace '' '' s"

text \<open>\<^verbatim>\<open>sep.join(xs)\<close>.\<close>

fun join :: "string \<Rightarrow> string list \<Rightarrow> string" where
  "join sep [] = []"
| "join sep [x] = x"
| "join sep (x # y # ys) = x @ sep @ join sep (y # ys)"

text \<open>\<^verbatim>\<open>sub in s\<close> and \<^verbatim>\<open>s.startswith(p)\<close>.\<close>

definition startswith :: "string \<Rightarrow> string \<Rightarrow> bool" where
  "startswith s p = (take (length p) s = p)"

fun contains :: "string \<Rightarrow> string \<Rightarrow> bool" where
  "contains sub [] = (sub = [])"
| "contains sub (c # cs) = (startswith (c # cs) sub \<or> contains sub cs)"

section \<open>Regular-expression scans\<close>

text \<open>
  \<^verbatim>\<open>re.finditer\<close> and \<^verbatim>\<open>re.findall\<close> report the non-overlapping matches from left to
  right. Both patterns of the phrase extractor begin with \<^verbatim>\<open>\b\<close> followed by a word
  character, so a match can start only at the beginning of the text or after a
  character that is not a word character. The matcher \<open>m\<close> is tried on the rest of the
  text and returns the reported group and the number of characters the match consumes
  (at least one for both patterns); the scan resumes after the match.
\<close>

definition start_boundary :: "char option \<Rightarrow> bool" where
  "start_boundary prev = (case prev of None \<Rightarrow> True | Some p \<Rightarrow> \<not> isword p)"

fun scan :: "(string \<Rightarrow> (string \<times> nat) option) \<Rightarrow> char option \<Rightarrow> nat \<Rightarrow> string \<Rightarrow> string list" where
  "scan m prev skip [] = []"
| "scan m prev skip (c # cs) =
     (if 0 < skip then scan m (Some c) (skip - 1) cs
      else if start_boundary prev then
        (case m (c # cs) of
           Some (g, n) \<Rightarrow> g # scan m (Some c) (n - 1) cs
         | None \<Rightarrow> scan m (Some c) 0 cs)
      else scan m (Some c) 0 cs)"

definition finditer :: "(string \<Rightarrow> (string \<times> nat) option) \<Rightarrow> string \<Rightarrow> string list" where
  "finditer m s = scan m None 0 s"

text \<open>Ordered alternation: the first alternative that lets the rest of the pattern match.\<close>

fun first_match :: "('a \<Rightarrow> 'b option) \<Rightarrow> 'a list \<Rightarrow> 'b option" where
  "first_match f [] = None"
| "first_match f (x # xs) = (case f x of Some y \<Rightarrow> Some y | None \<Rightarrow> first_match f xs)"

subsection \<open>The preposition pattern\<close>

text \<open>
  \<^verbatim>\<open>\b(in|on|around|for|within)\s+([A-Za-z][A-Za-z\- ]{3,50})\<close>.
  After the preposition, \<^verbatim>\<open>\s+\<close> has to take the whole run of white space, since a
  letter must follow it; the last group is greedy and ends the pattern, so it takes up
  to 50 characters of its class and needs 3.
\<close>

definition prepositions :: "string list" where
  "prepositions = [''in'', ''on'', ''around'', ''for'', ''within'']"

definition phrase_char :: "char \<Rightarrow> bool" where
  "phrase_char c = (is_letter_az c \<or> c = CHR ''-'' \<or> c = CHR '' '')"

definition match_prep_tail :: "nat \<Rightarrow> string \<Rightarrow> (string \<times> nat) option" where
  "match_prep_tail k s =
     (let ws = takeWhile isspace s in
      if ws = [] then None
      else (case dropWhile isspace s of
              [] \<Rightarrow> None
            | c # cs \<Rightarrow>
                if is_letter_az c then
                  (let body = take 50 (takeWhile phrase_char cs) in
                   if length body < 3 then None
                   else Some (c # body, k + length ws + 1 + length body))
                else None))"

definition match_prep :: "string \<Rightarrow> (string \<times> nat) option" where
  "match_prep s =
     first_match
       (\<lambda>p. if startswith s p then match_prep_tail (length p) (drop (length p) s) else None)
       prepositions"

subsection \<open>The capitalised-chunk pattern\<close>

text \<open>
  \<^verbatim>\<open>\b([A-Z][a-z]+(?:\s+[A-Z][a-z]+){0,3})\b\<close>.
  Every \<^verbatim>\<open>[a-z]+\<close> has to take the whole run of lower-case letters: what follows it is
  white space or the closing \<^verbatim>\<open>\b\<close>, and neither matches before a lower-case letter.
  The repetition is greedy: one more word is tried first, and given up when the rest of
  the pattern fails after it.
\<close>

definition cap_word :: "string \<Rightarrow> nat option" where
  "cap_word s =
     (case s of
        [] \<Rightarrow> None
      | c # cs \<Rightarrow>
          if is_upper_az c \<and> takeWhile is_lower_az cs \<noteq> []
          then Some (1 + length (takeWhile is_lower_az cs)) else None)"

definition cap_rep :: "string \<Rightarrow> nat option" where
  "cap_rep s =
     (let k = length (takeWhile isspace s) in
      if k = 0 then None
      else (case cap_word (drop k s) of None \<Rightarrow> None | Some n \<Rightarrow> Some (k + n)))"

definition end_boundary :: "string \<Rightarrow> bool" where
  "end_boundary s = (case s of [] \<Rightarrow> True | c # _ \<Rightarrow> \<not> isword c)"

fun caps_tail :: "nat \<Rightarrow> string \<Rightarrow> nat option" where
  "caps_tail 0 s = (if end_boundary s then Some 0 else None)"
| "caps_tail (Suc n) s =
     (case cap_rep s of
        Some k \<Rightarrow>
          (case caps_tail n (drop k s) of
             Some j \<Rightarrow> Some (k + j)
           | None \<Rightarrow> if end_boundary s then Some 0 else None)
      | None \<Rightarrow> if end_boundary s then Some 0 else None)"

definition match_caps :: "string \<Rightarrow> (string \<times> nat) option" where
  "match_caps s =
     (case cap_word s of
        None \<Rightarrow> None
      | Some k \<Rightarrow>
          (case caps_tail 3 (drop k s) of
             None \<Rightarrow> None
           | Some j \<Rightarrow> Some (take (k + j) s, k + j)))"

section \<open>The phrase extractor\<close>

definition keyword_phrases :: "string list" where
  "keyword_phrases =
     [''sustainable finance'', ''inclusive finance'', ''credit analytics'', ''portfolio risk'',
      ''quant research'', ''deal sourcing'', ''market intelligence'', ''growth analytics'',
      ''data engineering'', ''automation'', ''fund operations'', ''fintech infrastructure'']"

definition len_ok :: "string \<Rightarrow> bool" where
  "len_ok s = (3 \<le> length s \<and> length s \<le> 40)"

text \<open>The loop over the preposition matches of the white-space-collapsed text.\<close>

definition prep_phrase :: "string \<Rightarrow> string" where
  "prep_phrase g =
     re_sub_class (\<lambda>c. \<not> (is_lower_az c \<or> c = CHR ''-'' \<or> c = CHR '' '')) []
       (py_lower (py_strip g))"

definition prep_candidates :: "string \<Rightarrow> string list" where
  "prep_candidates txt = filter len_ok (map prep_phrase (finditer match_prep txt))"

text \<open>The loop over the capitalised chunks of the text as given.\<close>

definition caps_candidates :: "string \<Rightarrow> string list" where
  "caps_candidates text = map py_lower (finditer match_caps text)"

definition candidates :: "string \<Rightarrow> string list" where
  "candidates text = prep_candidates (collapse_ws text) @ caps_candidates text @ keyword_phrases"

text \<open>The cleaning loop: strip, collapse white space, keep lengths 3 to 40.\<close>

definition normalise :: "string \<Rightarrow> string" where
  "normalise c = collapse_ws (py_strip c)"

definition clean_candidates :: "string list \<Rightarrow> string list" where
  "clean_candidates cs = filter len_ok (map normalise cs)"

text \<open>The sort key \<^verbatim>\<open>(abs(len(s.split()) - 3), len(s))\<close>; Python's sort is stable.\<close>

definition word_gap :: "string \<Rightarrow> nat" where
  "word_gap s = nat \<bar>int (length (py_split s)) - 3\<bar>"

definition phrase_key :: "string \<Rightarrow> nat \<times> nat" where
  "phrase_key s = (word_gap s, length s)"

definition default_phrase :: string where
  "default_phrase = ''analytics support''"

text \<open>The end of the function: sort the cleaned candidates and return the first.\<close>

definition select_phrase :: "string list \<Rightarrow> string" where
  "select_phrase cs =
     (let cleaned = clean_candidates cs in
      if cleaned \<noteq> [] then hd (sort_key phrase_key cleaned) else default_phrase)"

definition extract_helper_phrase :: "string \<Rightarrow> string" where
  "extract_helper_phrase text =
     (if text = [] then default_phrase else select_phrase (candidates text))"

section \<open>Fixed texts\<close>

definition apos :: string where
  "apos = [CHR 0xE2, CHR 0x80, CHR 0x99]"

definition dash :: string where
  "dash = [CHR 0xE2, CHR 0x80, CHR 0x94]"

definition nl :: string where
  "nl = [CHR 0x0A]"

definition YOUR_DEGREE :: string where
  "YOUR_DEGREE = ''MSci Artificial Intelligence, King'' @ apos @ ''s College London''"

definition YOUR_PHONE :: string where
  "YOUR_PHONE = ''07525483773''"

definition YOUR_EMAIL :: string where
  "YOUR_EMAIL = ''hissanomar786@hotmail.com''"

definition YOUR_GITHUB :: string where
  "YOUR_GITHUB = ''https://github.com/Hissan7''"

definition YOUR_LINKEDIN :: string where
  "YOUR_LINKEDIN = ''https://www.linkedin.com/in/hissanomar''"

definition RESUME_PARAGRAPH :: string where
  "RESUME_PARAGRAPH =
     ''I'' @ apos @ ''m Hissan Omar, currently pursuing an MSci in Artificial Intelligence at King''
     @ apos @ ''s College London. ''
     @ ''My background spans AI, finance, and data analytics '' @ dash
     @ '' from developing an Option Value Predictor using ''
     @ ''Monte Carlo simulations and the Black-Scholes model to building a Sentiment-Based Alpha Generator that ''
     @ ''links social media trends to stock returns.''"

definition LONDON_CLOSING :: string where
  "LONDON_CLOSING =
     ''If there'' @ apos @ ''s any way I could take a bit off your plate '' @ dash
     @ '' whether through research, data processing, ''
     @ ''or analytics support '' @ dash @ '' I'' @ apos
     @ ''d love to contribute and learn from your team in London.''
     @ ''I'm open to a short chat, discussing possible tasks within your firm. I hope to hearing back from you soon !''"

section \<open>Opener, subject and body\<close>

definition fallback_opener :: "string \<Rightarrow> string \<Rightarrow> string \<Rightarrow> string" where
  "fallback_opener company blurb your_role =
     (if blurb \<noteq> [] then
        ''I'' @ apos @ ''ve been looking into '' @ company
        @ '' and I really like your focus on '' @ extract_helper_phrase blurb @ ''. ''
        @ ''Given my background in AI-driven financial modelling and data analytics, ''
        @ ''I'' @ apos @ ''d love to support work in this area as a '' @ your_role @ ''.''
      else
        ''I'' @ apos @ ''ve been exploring the work that '' @ company
        @ '' does and I'' @ apos @ ''m excited about your approach to building in finance. ''
        @ ''With my background in AI and quantitative analysis, I'' @ apos
        @ ''d love to support your team as a '' @ your_role @ ''.'')"

definition subject_line :: "string \<Rightarrow> string \<Rightarrow> string" where
  "subject_line company helper_phrase =
     ''Msci AI student willing to help '' @ py_strip company
     @ '' with '' @ py_lower (py_strip helper_phrase)"

text \<open>\<^verbatim>\<open>opener[0].lower() + opener[1:]\<close>, for a non-empty opener.\<close>

definition lower_first :: "string \<Rightarrow> string" where
  "lower_first opener = py_lower (take 1 opener) @ drop 1 opener"

definition build_email_body :: "string \<Rightarrow> string \<Rightarrow> string \<Rightarrow> string \<Rightarrow> string \<Rightarrow> string" where
  "build_email_body company greeting opener website your_name =
     (let greeting' =
            (if greeting = []
             then ''Hello '' @ company @ '' team. I hope this message finds you in good health,''
             else greeting);
          opener_block =
            (if opener \<noteq> [] then ''I'm fascinated by how '' @ lower_first opener
             else ''I'm fascinated by how your work fits into the broader finance and technology landscape.'')
      in greeting' @ nl @ nl
         @ opener_block @ nl @ nl
         @ RESUME_PARAGRAPH @ nl @ nl
         @ LONDON_CLOSING @ nl @ nl
         @ ''Best,'' @ nl
         @ your_name @ nl
         @ YOUR_DEGREE @ nl
         @ ''Phone: '' @ YOUR_PHONE @ nl
         @ ''Email: '' @ YOUR_EMAIL @ nl
         @ ''GitHub: '' @ YOUR_GITHUB @ nl
         @ ''LinkedIn: '' @ YOUR_LINKEDIN @ nl
         @ ''Website noted: '' @ (if website \<noteq> [] then website else ''-'') @ nl)"

section \<open>The outside world\<close>

text \<open>
  The libraries and services the program calls are parameters of the model: the HTTP
  client together with the HTML parser, \<^verbatim>\<open>urljoin\<close>, the chat-completion service, the
  SMTP session, \<^verbatim>\<open>time.sleep\<close>, the attachment lookup, the file system, the clock,
  the CSV writer and the process environment. A request that raises is the value
  \<open>None\<close>; for the other calls the model has the text of the exception they raise, if
  any. Every call of a service is recorded as an event.

  The program catches the exceptions of the requests, of the chat completion and of the
  sending. It does not catch those of \<^verbatim>\<open>urljoin\<close>, of creating the preview folder, of
  writing a preview file and of writing the log: such an exception ends the run, and is
  the value \<open>Uncaught\<close> of the model. \<open>SystemExit\<close> is the program's own exit with a
  message.

  Progress messages printed to standard output are not part of the model, and the column
  names of a table are taken to be distinct, so that a cell is a single value.
\<close>

datatype failure = SystemExit string | Uncaught string

text \<open>The value of a \<^verbatim>\<open>float\<close> command-line argument.\<close>

datatype pyfloat = Finite real | PosInf | NegInf | NotANumber

record http_response =
  status_code :: int
  content_type :: string
  meta_content :: "string option"
  first_p :: "string option"

record attachment =
  att_path :: string
  att_ctype :: string

record email_message =
  msg_from :: string
  msg_to :: string
  msg_subject :: string
  msg_body :: string
  msg_attachments :: "attachment list"

record env =
  http_get :: "string \<Rightarrow> http_response option"
  urljoin :: "string \<Rightarrow> string \<Rightarrow> string + string"
  gpt_ready :: bool
  chat_completion :: "string \<Rightarrow> string \<Rightarrow> string \<Rightarrow> string \<Rightarrow> string option"
  smtp_host :: string
  smtp_port :: string
  smtp_user :: "string option"
  smtp_pass :: "string option"
  smtp_session :: "bool \<Rightarrow> string \<Rightarrow> email_message \<Rightarrow> string option"
  time_sleep :: "pyfloat \<Rightarrow> string option"
  file_exists :: "string \<Rightarrow> bool"
  guess_type :: "string \<Rightarrow> string option \<times> string option"
  mkdir_fails :: "string \<Rightarrow> string option"
  open_fails :: "string \<Rightarrow> string \<Rightarrow> string option"
  utcnow :: "nat \<Rightarrow> string"
  csv_line :: "string list \<Rightarrow> string"

datatype event =
    HttpGet string
  | ChatCompletion string string string string
  | WritePreview string string string
  | SendMail bool string email_message
  | Sleep pyfloat
  | MakeDir string

section \<open>The blurb fetcher\<close>

text \<open>
  The response of \<open>http_get\<close> carries what the function reads from it: the status, the
  content type (empty when the header is absent), the \<^verbatim>\<open>content\<close> attribute of the
  description \<^verbatim>\<open>meta\<close> tag and the text of the first paragraph.
\<close>

definition fragments :: "http_response \<Rightarrow> string list" where
  "fragments r =
     (case meta_content r of
        None \<Rightarrow> []
      | Some m \<Rightarrow> if m \<noteq> [] then [py_strip m] else [])
     @ (case first_p r of None \<Rightarrow> [] | Some p \<Rightarrow> [p])"

definition joined_texts :: "string list \<Rightarrow> string" where
  "joined_texts texts =
     join '' '' (map py_strip (filter (\<lambda>t. t \<noteq> [] \<and> 40 < length (py_strip t)) texts))"

fun fetch_loop :: "env \<Rightarrow> string list \<Rightarrow> string list \<Rightarrow> string \<times> event list" where
  "fetch_loop e texts [] = ([], [])"
| "fetch_loop e texts (u # us) =
     (case http_get e u of
        None \<Rightarrow> (let (b, evs) = fetch_loop e texts us in (b, HttpGet u # evs))
      | Some r \<Rightarrow>
          if status_code r = 200 \<and> contains ''text/html'' (content_type r) then
            (let texts' = texts @ fragments r; joined = joined_texts texts' in
             if joined \<noteq> [] then (take 1200 (collapse_ws joined), [HttpGet u])
             else (let (b, evs) = fetch_loop e texts' us in (b, HttpGet u # evs)))
          else (let (b, evs) = fetch_loop e texts us in (b, HttpGet u # evs)))"

definition with_scheme :: "string \<Rightarrow> string" where
  "with_scheme url =
     (if startswith url ''http://'' \<or> startswith url ''https://'' then url
      else ''http://'' @ url)"

text \<open>
  The list of candidates is built before the loop and outside its \<^verbatim>\<open>try\<close>: an
  exception of \<^verbatim>\<open>urljoin\<close> (the value \<open>Inl\<close>, with its text) leaves the function.
\<close>

definition candidate_urls :: "env \<Rightarrow> string \<Rightarrow> failure + string list" where
  "candidate_urls e url =
     (case urljoin e url ''/about'' of
        Inl err \<Rightarrow> Inl (Uncaught err)
      | Inr about \<Rightarrow>
          (case urljoin e url ''/about-us'' of
             Inl err \<Rightarrow> Inl (Uncaught err)
           | Inr about_us \<Rightarrow>
               (case urljoin e url ''/company'' of
                  Inl err \<Rightarrow> Inl (Uncaught err)
                | Inr company_page \<Rightarrow> Inr [url, about, about_us, company_page])))"

definition fetch_site_blurb :: "env \<Rightarrow> string \<Rightarrow> failure + string \<times> event list" where
  "fetch_site_blurb e url =
     (if url = [] then Inr ([], [])
      else (case candidate_urls e (with_scheme url) of
              Inl f \<Rightarrow> Inl f
            | Inr us \<Rightarrow> Inr (fetch_loop e [] us)))"

section \<open>The personalisation engine\<close>

text \<open>
  The two searches of the reply run with \<^verbatim>\<open>re.S | re.I\<close>: the dot matches every
  character and the literal tags match in any case.
\<close>

definition ci_startswith :: "string \<Rightarrow> string \<Rightarrow> bool" where
  "ci_startswith s p = (py_lower (take (length p) s) = py_lower p)"

text \<open>
  \<^verbatim>\<open>PHRASE:\s*(.+)\<close>: the group is the rest of the text after the white space; when
  nothing is left, the white space gives its last character back to the group.
\<close>

fun search_phrase :: "string \<Rightarrow> string option" where
  "search_phrase [] = None"
| "search_phrase (c # cs) =
     (if ci_startswith (c # cs) ''PHRASE:'' then
        (let rest = drop 7 (c # cs); ws = takeWhile isspace rest; r = dropWhile isspace rest in
         if r \<noteq> [] then Some r
         else if ws \<noteq> [] then Some [last ws]
         else search_phrase cs)
      else search_phrase cs)"

text \<open>
  \<^verbatim>\<open>OPENER:\s*(.+?)\s*PHRASE:\<close>: the lazy group takes the fewest characters, at least
  one, after which white space and the second tag follow; the white space before the
  group is given back one character at a time when no such group exists.
\<close>

definition phrase_ahead :: "string \<Rightarrow> bool" where
  "phrase_ahead r = ci_startswith (dropWhile isspace r) ''PHRASE:''"

fun lazy_until :: "string \<Rightarrow> string \<Rightarrow> string option" where
  "lazy_until g [] = None"
| "lazy_until g (c # cs) =
     (if phrase_ahead cs then Some (g @ [c]) else lazy_until (g @ [c]) cs)"

fun opener_from :: "nat \<Rightarrow> string \<Rightarrow> string option" where
  "opener_from 0 rest = lazy_until [] rest"
| "opener_from (Suc k) rest =
     (case lazy_until [] (drop (Suc k) rest) of
        Some g \<Rightarrow> Some g
      | None \<Rightarrow> opener_from k rest)"

fun search_opener :: "string \<Rightarrow> string option" where
  "search_opener [] = None"
| "search_opener (c # cs) =
     (if ci_startswith (c # cs) ''OPENER:'' then
        (let rest = drop 7 (c # cs) in
         case opener_from (length (takeWhile isspace rest)) rest of
           Some g \<Rightarrow> Some g
         | None \<Rightarrow> search_opener cs)
      else search_opener cs)"

text \<open>\<^verbatim>\<open>blurb or opener\<close>.\<close>

definition py_or :: "string \<Rightarrow> string \<Rightarrow> string" where
  "py_or a b = (if a \<noteq> [] then a else b)"

definition heuristic_personalization :: "string \<Rightarrow> string \<Rightarrow> string \<Rightarrow> string \<times> string" where
  "heuristic_personalization company blurb your_role =
     (let opener = fallback_opener company blurb your_role
      in (opener, extract_helper_phrase (py_or blurb opener)))"

definition parse_reply :: "string \<Rightarrow> string \<Rightarrow> string \<Rightarrow> string \<Rightarrow> string \<times> string" where
  "parse_reply company blurb your_role content =
     (let text = py_strip content;
          opener = (case search_opener text of
                      Some g \<Rightarrow> py_strip g
                    | None \<Rightarrow> fallback_opener company blurb your_role);
          helper = (case search_phrase text of
                      Some g \<Rightarrow> py_strip g
                    | None \<Rightarrow> extract_helper_phrase (py_or blurb opener));
          helper' = py_lower (strip_dots (py_strip helper))
      in (opener, if helper' = [] then extract_helper_phrase (py_or blurb opener) else helper'))"

text \<open>
  \<open>gpt_ready\<close> says that the API key is set and the client was built. The request is
  the fixed prompt around the four values; a call that raises is \<open>None\<close>.
\<close>

definition gpt_company_personalization ::
  "env \<Rightarrow> string \<Rightarrow> string \<Rightarrow> string \<Rightarrow> string \<Rightarrow> (string \<times> string) \<times> event list" where
  "gpt_company_personalization e company website blurb your_role =
     (if \<not> gpt_ready e then (heuristic_personalization company blurb your_role, [])
      else
        (case chat_completion e company website blurb your_role of
           None \<Rightarrow>
             (heuristic_personalization company blurb your_role,
              [ChatCompletion company website blurb your_role])
         | Some content \<Rightarrow>
             (parse_reply company blurb your_role content,
              [ChatCompletion company website blurb your_role])))"

section \<open>The sender\<close>

definition attach_files :: "env \<Rightarrow> string list \<Rightarrow> attachment list" where
  "attach_files e paths =
     map (\<lambda>p. \<lparr>att_path = p,
               att_ctype = (case guess_type e p of
                              (Some ctype, None) \<Rightarrow> ctype
                            | _ \<Rightarrow> ''application/octet-stream'')\<rparr>)
       (filter (file_exists e) paths)"

definition use_starttls :: "env \<Rightarrow> bool" where
  "use_starttls e =
     (smtp_port e = ''587'' \<or>
      py_lower (smtp_host e) \<in> {''smtp.office365.com'', ''smtp-mail.outlook.com''})"

text \<open>
  \<open>SendMail\<close> records the call. \<open>smtp_session\<close> stands for all the call does after
  building the message (reading the attachments, connecting, logging in, sending): its
  result is \<open>None\<close> when the message was handed over, else the exception's text.
\<close>

definition send_email ::
  "env \<Rightarrow> string \<Rightarrow> string \<Rightarrow> string \<Rightarrow> string \<Rightarrow> string \<Rightarrow> string list
     \<Rightarrow> string option \<times> event list" where
  "send_email e user sender recipient subject body attachments =
     (let msg = \<lparr>msg_from = sender, msg_to = recipient, msg_subject = subject,
                 msg_body = body, msg_attachments = attach_files e attachments\<rparr>
      in (smtp_session e (use_starttls e) user msg, [SendMail (use_starttls e) user msg]))"

section \<open>The run loop\<close>

text \<open>
  A cell of the table is a missing value (the NaN the table library gives for a blank
  cell) or a text. \<^verbatim>\<open>str\<close> of the missing value is the text \<^verbatim>\<open>nan\<close>.
\<close>

datatype cell = NaN | Text string

definition py_str :: "cell \<Rightarrow> string" where
  "py_str c = (case c of NaN \<Rightarrow> ''nan'' | Text s \<Rightarrow> s)"

definition isna :: "cell \<Rightarrow> bool" where
  "isna c = (c = NaN)"

type_synonym row = "string \<rightharpoonup> cell"

record dataframe =
  columns :: "string list"
  rows :: "row list"

text \<open>\<^verbatim>\<open>row.get(key, "")\<close>.\<close>

definition row_get :: "row \<Rightarrow> string \<Rightarrow> cell" where
  "row_get r key = (case r key of None \<Rightarrow> Text [] | Some c \<Rightarrow> c)"

record args =
  from_name :: string
  from_email :: string
  role :: string
  resume :: "string option"
  rate_sec :: pyfloat
  max_rows :: int
  dry_run :: bool
  outbox :: string

text \<open>The values the loop body reads from a row.\<close>

record lead =
  company :: string
  email :: string
  website :: string
  opener_from_sheet :: string
  status :: string

definition read_lead :: "string list \<Rightarrow> row \<Rightarrow> lead" where
  "read_lead cols r =
     \<lparr>company = py_strip (py_str (row_get r ''Company'')),
      email = py_strip (py_str (row_get r ''Email'')),
      website = py_strip (py_str (row_get r ''Website'')),
      opener_from_sheet =
        (if ''First Line'' \<in> set cols then
           (let raw_opener = row_get r ''First Line'' in
            if isna raw_opener then [] else py_strip (py_str raw_opener))
         else []),
      status = (if ''Status'' \<in> set cols then py_strip (py_str (row_get r ''Status'')) else [])\<rparr>"

definition skip_lead :: "lead \<Rightarrow> bool" where
  "skip_lead l =
     (company l = [] \<or> email l = [] \<or>
      py_lower (status l) \<in> {''sent'', ''done'', ''bounced''})"

text \<open>Opener, helper phrase and blurb of a lead, with the service calls made.\<close>

definition personalise ::
  "env \<Rightarrow> args \<Rightarrow> lead \<Rightarrow> failure + (string \<times> string \<times> string) \<times> event list" where
  "personalise e a l =
     (if opener_from_sheet l \<noteq> [] then
        Inr ((opener_from_sheet l, extract_helper_phrase (opener_from_sheet l), []), [])
      else
        (case fetch_site_blurb e (website l) of
           Inl f \<Rightarrow> Inl f
         | Inr (blurb, evs1) \<Rightarrow>
             (let ((opener, helper_phrase), evs2) =
                    gpt_company_personalization e (company l) (website l) blurb (role a)
              in Inr ((opener, helper_phrase, blurb), evs1 @ evs2))))"

text \<open>The safety check on the opener; an opener is always a text here, never \<^verbatim>\<open>None\<close>.\<close>

definition guard_opener :: "string \<Rightarrow> string \<Rightarrow> string \<Rightarrow> string \<Rightarrow> string" where
  "guard_opener company' blurb your_role opener =
     (if py_lower opener = ''nan'' then fallback_opener company' blurb your_role else opener)"

definition safe_char :: "char \<Rightarrow> bool" where
  "safe_char c =
     (is_letter_az c \<or> is_digit_09 c \<or> c = CHR ''_'' \<or> c = CHR ''.'' \<or> c = CHR ''-'')"

definition safe_company :: "string \<Rightarrow> string" where
  "safe_company company' = take 60 (re_sub_class (\<lambda>c. \<not> safe_char c) ''_'' company')"

definition preview_name :: "string \<Rightarrow> string \<Rightarrow> string" where
  "preview_name company' email' = safe_company company' @ ''__'' @ email' @ ''.txt''"

definition preview_content :: "string \<Rightarrow> string \<Rightarrow> string \<Rightarrow> string" where
  "preview_content email' subj body =
     ''TO: '' @ email' @ nl @ ''SUBJECT: '' @ subj @ nl @ nl @ body"

text \<open>
  Preview or send: the result text and the events. The preview file is opened and
  written outside any \<^verbatim>\<open>try\<close>: \<open>open_fails\<close> gives the exception of that, if any, for a
  folder and a file name (a recipient address with a slash names a sub-folder, which has
  to exist). Sending and the pause after it are inside the \<^verbatim>\<open>try\<close>: an exception of
  either is recorded as the result of the row.
\<close>

definition deliver ::
  "env \<Rightarrow> args \<Rightarrow> lead \<Rightarrow> string \<Rightarrow> string \<Rightarrow> failure + string \<times> event list" where
  "deliver e a l subj body =
     (if dry_run a then
        (case open_fails e (outbox a) (preview_name (company l) (email l)) of
           Some err \<Rightarrow> Inl (Uncaught err)
         | None \<Rightarrow>
             Inr (''PREVIEWED'',
                  [WritePreview (outbox a) (preview_name (company l) (email l))
                     (preview_content (email l) subj body)]))
      else
        Inr (case send_email e
                    (case smtp_user e of None \<Rightarrow> from_email a | Some u \<Rightarrow> u)
                    (from_name a @ '' <'' @ from_email a @ ''>'')
                    (email l) subj body
                    (case resume a of None \<Rightarrow> [] | Some p \<Rightarrow> if p = [] then [] else [p]) of
               (None, evs) \<Rightarrow>
                 (case time_sleep e (rate_sec a) of
                    None \<Rightarrow> (''SENT'', evs @ [Sleep (rate_sec a)])
                  | Some err \<Rightarrow> (''ERROR: '' @ err, evs))
             | (Some err, evs) \<Rightarrow> (''ERROR: '' @ err, evs)))"

record send_record =
  r_timestamp :: string
  r_company :: string
  r_email :: string
  r_website :: string
  r_greeting :: string
  r_first_line :: string
  r_subject :: string
  r_result :: string

text \<open>
  The loop body after the skip tests, for the \<open>n\<close>-th lead to be processed: the log
  record and the events, or the exception that ends the run.
\<close>

definition compose_lead ::
  "env \<Rightarrow> args \<Rightarrow> nat \<Rightarrow> lead \<Rightarrow> failure + send_record \<times> event list" where
  "compose_lead e a n l =
     (case personalise e a l of
        Inl f \<Rightarrow> Inl f
      | Inr ((opener0, helper_phrase, blurb), evs1) \<Rightarrow>
          (let greeting = [];
               opener = guard_opener (company l) blurb (role a) opener0;
               subj = subject_line (company l) helper_phrase;
               body = build_email_body (company l) greeting opener (website l) (from_name a);
               timestamp = utcnow e n @ ''Z''
           in case deliver e a l subj body of
                Inl f \<Rightarrow> Inl f
              | Inr (result, evs2) \<Rightarrow>
                  Inr (\<lparr>r_timestamp = timestamp, r_company = company l, r_email = email l,
                        r_website = website l, r_greeting = greeting, r_first_line = opener,
                        r_subject = subj, r_result = result\<rparr>,
                       evs1 @ evs2)))"

text \<open>
  One pass of the loop body over a row: \<open>Inr None\<close> when the row is skipped,
  \<open>Inr (Some _)\<close> when it is processed, \<open>Inl\<close> when an exception ends the run.
\<close>

definition row_outcome ::
  "env \<Rightarrow> args \<Rightarrow> string list \<Rightarrow> nat \<Rightarrow> row \<Rightarrow> failure + (send_record \<times> event list) option" where
  "row_outcome e a cols n r =
     (let l = read_lead cols r in
      if skip_lead l then Inr None
      else (case compose_lead e a n l of Inl f \<Rightarrow> Inl f | Inr c \<Rightarrow> Inr (Some c)))"

record loop_state =
  sent_log :: "send_record list"
  processed :: nat
  events :: "event list"

definition process_row ::
  "env \<Rightarrow> args \<Rightarrow> string list \<Rightarrow> loop_state \<Rightarrow> row \<Rightarrow> failure + loop_state" where
  "process_row e a cols st r =
     (case row_outcome e a cols (processed st) r of
        Inl f \<Rightarrow> Inl f
      | Inr None \<Rightarrow> Inr st
      | Inr (Some (rec, evs)) \<Rightarrow>
          Inr \<lparr>sent_log = sent_log st @ [rec], processed = Suc (processed st),
               events = events st @ evs\<rparr>)"

fun run_rows ::
  "env \<Rightarrow> args \<Rightarrow> string list \<Rightarrow> loop_state \<Rightarrow> row list \<Rightarrow> failure + loop_state" where
  "run_rows e a cols st [] = Inr st"
| "run_rows e a cols st (r # rs) =
     (if max_rows a \<le> int (processed st) then Inr st
      else (case process_row e a cols st r of
              Inl f \<Rightarrow> Inl f
            | Inr st' \<Rightarrow> run_rows e a cols st' rs))"

section \<open>The send log\<close>

definition fieldnames :: "string list" where
  "fieldnames =
     [''timestamp'', ''company'', ''email'', ''website'', ''greeting'', ''first_line'',
      ''subject'', ''result'']"

definition record_values :: "send_record \<Rightarrow> string list" where
  "record_values x =
     [r_timestamp x, r_company x, r_email x, r_website x, r_greeting x, r_first_line x,
      r_subject x, r_result x]"

text \<open>
  The log file before the run is \<open>None\<close> when it does not exist. The file is opened in
  append mode; the header is written when the file did not exist.
\<close>

definition write_log :: "env \<Rightarrow> string option \<Rightarrow> send_record list \<Rightarrow> string" where
  "write_log e old recs =
     (case old of None \<Rightarrow> [] | Some c \<Rightarrow> c)
     @ (if old = None then csv_line e fieldnames else [])
     @ concat (map (\<lambda>x. csv_line e (record_values x)) recs)"

section \<open>The program\<close>

text \<open>
  What a run that reaches its end leaves behind: the content of the log file, the
  records it wrote there, the number of rows processed and the events.
\<close>

record run_result =
  log_file :: string
  run_records :: "send_record list"
  run_processed :: nat
  run_events :: "event list"

fun missing_column :: "string list \<Rightarrow> string list \<Rightarrow> string option" where
  "missing_column cols [] = None"
| "missing_column cols (c # cs) = (if c \<in> set cols then missing_column cols cs else Some c)"

text \<open>The loop over the rows of the table.\<close>

definition run_loop :: "env \<Rightarrow> args \<Rightarrow> dataframe \<Rightarrow> failure + loop_state" where
  "run_loop e a df =
     run_rows e a (columns df)
       \<lparr>sent_log = [], processed = 0, events = [MakeDir (outbox a)]\<rparr> (rows df)"

text \<open>
  The program from the check of the password on, for a table that was loaded and
  normalised. The log is written after the loop; the log file is in the working
  directory, the empty folder name of \<open>open_fails\<close>. A run that ends with \<open>Inl\<close> has
  not written the log.
\<close>

definition main :: "env \<Rightarrow> args \<Rightarrow> dataframe \<Rightarrow> string option \<Rightarrow> failure + run_result" where
  "main e a df old_log =
     (if \<not> dry_run a \<and> (smtp_pass e = None \<or> smtp_pass e = Some [])
      then Inl (SystemExit
             ''Missing SMTP_PASS env var. For Gmail, create an App Password and set SMTP_PASS.'')
      else
        (case mkdir_fails e (outbox a) of
           Some err \<Rightarrow> Inl (Uncaught err)
         | None \<Rightarrow>
             (case missing_column (columns df) [''Company'', ''Email''] of
                Some c \<Rightarrow> Inl (SystemExit (''Excel/CSV missing required column: '' @ c))
              | None \<Rightarrow>
                  (case run_loop e a df of
                     Inl f \<Rightarrow> Inl f
                   | Inr st \<Rightarrow>
                       (case open_fails e [] ''send_log.csv'' of
                          Some err \<Rightarrow> Inl (Uncaught err)
                        | None \<Rightarrow>
                            Inr \<lparr>log_file = write_log e old_log (sent_log st),
                                 run_records = sent_log st,
                                 run_processed = processed st,
                                 run_events = events st\<rparr>)))))"

section \<open>Auxiliary definitions for the properties\<close>

fun is_fetch :: "event \<Rightarrow> bool" where
  "is_fetch (HttpGet u) = True"
| "is_fetch ev = False"

fun is_chat :: "event \<Rightarrow> bool" where
  "is_chat (ChatCompletion c w b r) = True"
| "is_chat ev = False"

fun is_preview :: "event \<Rightarrow> bool" where
  "is_preview (WritePreview d f c) = True"
| "is_preview ev = False"

fun is_send :: "event \<Rightarrow> bool" where
  "is_send (SendMail t u m) = True"
| "is_send ev = False"

text \<open>A row that was processed, with a property of its record and events.\<close>

definition processed_with ::
  "failure + (send_record \<times> event list) option \<Rightarrow> (send_record \<Rightarrow> event list \<Rightarrow> bool) \<Rightarrow> bool" where
  "processed_with out P = (case out of Inr (Some (rec, evs)) \<Rightarrow> P rec evs | _ \<Rightarrow> False)"

text \<open>
  The file-name rule in words: every maximal run of characters outside the class of
  ASCII letters, digits, underscore, dot and hyphen becomes one underscore. A character
  outside the class writes an underscore when it starts a run, that is when \<open>inside\<close>,
  which says that the character before it was outside the class too, is false.
\<close>

fun underscore_runs :: "bool \<Rightarrow> string \<Rightarrow> string" where
  "underscore_runs inside [] = []"
| "underscore_runs inside (c # cs) =
     (if safe_char c then c # underscore_runs False cs
      else if inside then underscore_runs True cs
      else CHR ''_'' # underscore_runs True cs)"

text \<open>
  The file-name rule as the specification words it: every character that is not a
  letter or a digit becomes an underscore, and the result is cut to 60 characters.
\<close>

definition claimed_safe_company :: "string \<Rightarrow> string" where
  "claimed_safe_company company' =
     take 60 (map (\<lambda>c. if is_letter_az c \<or> is_digit_09 c then c else CHR ''_'') company')"

text \<open>
  A world in which every service fails and the file system works, one whose preview
  folder has no sub-folders, and a dry run over one table.
\<close>

definition offline :: env where
  "offline =
     \<lparr>http_get = (\<lambda>u. None), urljoin = (\<lambda>b p. Inr (b @ p)), gpt_ready = False,
      chat_completion = (\<lambda>c w b r. None), smtp_host = ''smtp.gmail.com'',
      smtp_port = ''465'', smtp_user = None, smtp_pass = None,
      smtp_session = (\<lambda>t u m. Some ''offline''), time_sleep = (\<lambda>x. None),
      file_exists = (\<lambda>p. False), guess_type = (\<lambda>p. (None, None)),
      mkdir_fails = (\<lambda>d. None), open_fails = (\<lambda>d f. None),
      utcnow = (\<lambda>n. ''2025-01-01T00:00:00''),
      csv_line = (\<lambda>xs. join '','' xs @ [CHR 0x0D, CHR 0x0A])\<rparr>"

definition flat_outbox :: env where
  "flat_outbox =
     offline\<lparr>open_fails :=
       (\<lambda>d f. if CHR ''/'' \<in> set f then Some ''[Errno 2] No such file or directory'' else None)\<rparr>"

definition preview_args :: args where
  "preview_args =
     \<lparr>from_name = ''Hissan Omar'', from_email = ''hissanomar786@hotmail.com'',
      role = ''AI/Software Engineer Intern'', resume = None, rate_sec = Finite 20,
      max_rows = 50,
      dry_run = True, outbox = ''outbox_preview''\<rparr>"

definition lead_columns :: "string list" where
  "lead_columns = [''Company'', ''Website'', ''Email'', ''First Line'', ''Status'']"

definition acme_row :: row where
  "acme_row =
     [''Company'' \<mapsto> Text ''Acme Capital'', ''Website'' \<mapsto> NaN,
      ''Email'' \<mapsto> Text ''a@acme.com'', ''First Line'' \<mapsto> NaN, ''Status'' \<mapsto> NaN]"

definition sheet_row :: row where
  "sheet_row =
     [''Company'' \<mapsto> Text ''Acme Capital'', ''Website'' \<mapsto> Text ''acme.com'',
      ''Email'' \<mapsto> Text ''a@acme.com'', ''First Line'' \<mapsto> Text ''We like your Growth Equity work'',
      ''Status'' \<mapsto> NaN]"

definition nan_opener_row :: row where
  "nan_opener_row =
     [''Company'' \<mapsto> Text ''Acme Capital'', ''Website'' \<mapsto> Text ''acme.com'',
      ''Email'' \<mapsto> Text ''a@acme.com'', ''First Line'' \<mapsto> Text ''NAN'', ''Status'' \<mapsto> NaN]"

definition blank_company_row :: row where
  "blank_company_row =
     [''Company'' \<mapsto> NaN, ''Website'' \<mapsto> Text ''acme.com'',
      ''Email'' \<mapsto> Text ''a@acme.com'', ''First Line'' \<mapsto> NaN, ''Status'' \<mapsto> NaN]"

definition site_missing_sheet_row :: row where
  "site_missing_sheet_row =
     [''Company'' \<mapsto> Text ''Acme Capital'', ''Website'' \<mapsto> NaN,
      ''Email'' \<mapsto> Text ''a@acme.com'', ''First Line'' \<mapsto> Text ''We like your Growth Equity work'',
      ''Status'' \<mapsto> NaN]"

definition slash_row :: row where
  "slash_row =
     [''Company'' \<mapsto> Text ''Acme Capital'', ''Website'' \<mapsto> Text ''acme.com'',
      ''Email'' \<mapsto> Text ''sales/team@acme.com'', ''First Line'' \<mapsto> NaN, ''Status'' \<mapsto> NaN]"

definition acme_table :: dataframe where
  "acme_table = \<lparr>columns = lead_columns, rows = [acme_row, sheet_row]\<rparr>"

section \<open>Properties of the phrase extractor\<close>

lemmas char_class_defs = isspace_def code_def is_upper_az_def is_lower_az_def is_letter_az_def
  is_digit_09_def isword_def lower_char_def

lemma clean_candidates_append:
  "clean_candidates (xs @ ys) = clean_candidates xs @ clean_candidates ys"
  by (simp add: clean_candidates_def)

lemma clean_candidates_len_ok: "c \<in> set (clean_candidates cs) \<Longrightarrow> len_ok c"
  by (auto simp: clean_candidates_def)

lemma keyword_phrases_clean: "clean_candidates keyword_phrases = keyword_phrases"
  by (simp add: clean_candidates_def keyword_phrases_def len_ok_def normalise_def py_strip_def
      collapse_ws_def char_class_defs)

lemma cleaned_candidates_nonempty: "clean_candidates (candidates text) \<noteq> []"
proof -
  have "keyword_phrases \<noteq> []" by (simp add: keyword_phrases_def)
  then show ?thesis
    by (simp add: candidates_def clean_candidates_append keyword_phrases_clean)
qed

lemma sort_key_eq_Nil: "(sort_key f xs = []) = (xs = [])"
  by (metis length_0_conv length_sort)

lemma hd_insort_key:
  "hd (insort_key f x ys) = (if ys = [] \<or> f x \<le> f (hd ys) then x else hd ys)"
  by (cases ys) auto

lemma hd_sort_key_Cons:
  "hd (sort_key f (x # xs)) =
     (if xs = [] \<or> f x \<le> f (hd (sort_key f xs)) then x else hd (sort_key f xs))"
  by (simp add: hd_insort_key sort_key_eq_Nil)

lemma hd_sort_key_mem: "xs \<noteq> [] \<Longrightarrow> hd (sort_key f xs) \<in> set xs"
proof -
  assume "xs \<noteq> []"
  then have "sort_key f xs \<noteq> []" by (simp add: sort_key_eq_Nil)
  then have "hd (sort_key f xs) \<in> set (sort_key f xs)" by (rule hd_in_set)
  then show ?thesis by simp
qed

lemma hd_sort_key_least: "x \<in> set xs \<Longrightarrow> f (hd (sort_key f xs)) \<le> f x"
proof -
  assume x: "x \<in> set xs"
  then have ne: "sort_key f xs \<noteq> []" by (auto simp: sort_key_eq_Nil)
  have s: "sorted (map f (sort_key f xs))" by (rule sorted_sort_key)
  from x have "x \<in> set (sort_key f xs)" by simp
  with ne s show ?thesis
    by (cases "sort_key f xs") auto
qed

lemma select_phrase_mem:
  "clean_candidates cs \<noteq> [] \<Longrightarrow> select_phrase cs \<in> set (clean_candidates cs)"
  by (simp add: select_phrase_def hd_sort_key_mem)

lemma select_phrase_least:
  "c \<in> set (clean_candidates cs) \<Longrightarrow> phrase_key (select_phrase cs) \<le> phrase_key c"
proof -
  assume c: "c \<in> set (clean_candidates cs)"
  then have "clean_candidates cs \<noteq> []" by auto
  then have "select_phrase cs = hd (sort_key phrase_key (clean_candidates cs))"
    by (simp add: select_phrase_def)
  with c show ?thesis by (simp add: hd_sort_key_least)
qed

text \<open>
  Claim C6. On the empty text the phrase extractor returns \<^verbatim>\<open>analytics support\<close>, and
  the end of the function returns the same default whenever no candidate is left
  after the cleaning loop.
\<close>

theorem default_phrase_returns:
  "extract_helper_phrase [] = ''analytics support'' \<and>
   (clean_candidates cs = [] \<longrightarrow> select_phrase cs = ''analytics support'')"
  by (simp add: extract_helper_phrase_def select_phrase_def default_phrase_def)

theorem default_phrase_returns_witness:
  "clean_candidates [''ab''] = [] \<and> select_phrase [''ab''] = ''analytics support''"
proof -
  have h: "clean_candidates [''ab''] = []"
    by (simp add: clean_candidates_def len_ok_def normalise_def py_strip_def collapse_ws_def
        char_class_defs)
  with default_phrase_returns [of "[''ab'']"] show ?thesis by simp
qed

text \<open>
  Claim C9. For every text the phrase extractor returns a non-empty phrase of 3 to 40
  characters. The keyword list is always among the candidates and passes the cleaning
  loop, so the cleaned list is never empty and the default after the sort is never
  reached.
\<close>

theorem phrase_length_bounds:
  "3 \<le> length (extract_helper_phrase text) \<and> length (extract_helper_phrase text) \<le> 40 \<and>
   extract_helper_phrase text \<noteq> [] \<and>
   clean_candidates (candidates text) \<noteq> [] \<and>
   set keyword_phrases \<subseteq> set (clean_candidates (candidates text))"
proof -
  have ne: "clean_candidates (candidates text) \<noteq> []"
    by (rule cleaned_candidates_nonempty)
  have kw: "set keyword_phrases \<subseteq> set (clean_candidates (candidates text))"
    by (auto simp: candidates_def clean_candidates_append keyword_phrases_clean)
  have len: "len_ok (extract_helper_phrase text)"
  proof (cases "text = []")
    case True
    then show ?thesis
      by (simp add: extract_helper_phrase_def default_phrase_def len_ok_def)
  next
    case False
    have "select_phrase (candidates text) \<in> set (clean_candidates (candidates text))"
      using ne by (rule select_phrase_mem)
    then have "len_ok (select_phrase (candidates text))" by (rule clean_candidates_len_ok)
    with False show ?thesis by (simp add: extract_helper_phrase_def)
  qed
  then have "extract_helper_phrase text \<noteq> []" by (auto simp: len_ok_def)
  with ne kw len show ?thesis by (simp add: len_ok_def)
qed

lemma hd_sort_key_first:
  assumes "\<forall>z\<in>set zs. f x \<le> f z"
  shows "hd (sort_key f (x # zs)) = x"
proof (cases "zs = []")
  case True
  then show ?thesis by simp
next
  case False
  then have "hd (sort_key f zs) \<in> set zs" by (rule hd_sort_key_mem)
  with assms have "f x \<le> f (hd (sort_key f zs))" by blast
  then show ?thesis by (simp only: hd_sort_key_Cons if_True simp_thms)
qed

lemma double_space_candidates:
  "candidates ''Growth  Equity'' = ''growth  equity'' # keyword_phrases"
proof -
  have p: "prep_candidates (collapse_ws ''Growth  Equity'') = []"
    by (simp add: prep_candidates_def finditer_def match_prep_def match_prep_tail_def
        prepositions_def startswith_def start_boundary_def collapse_ws_def char_class_defs)
  have c: "caps_candidates ''Growth  Equity'' = [''growth  equity'']"
    by (simp add: caps_candidates_def finditer_def match_caps_def cap_word_def cap_rep_def
        end_boundary_def start_boundary_def py_lower_def char_class_defs numeral_3_eq_3
        char_of_eq_iff)
  show ?thesis by (simp only: candidates_def p c append_Nil append_Cons)
qed

lemma double_space_cleaned:
  "clean_candidates (''growth  equity'' # keyword_phrases) = ''growth equity'' # keyword_phrases"
proof -
  have "clean_candidates [''growth  equity''] = [''growth equity'']"
    by (simp add: clean_candidates_def len_ok_def normalise_def py_strip_def collapse_ws_def
        char_class_defs)
  then show ?thesis
    using clean_candidates_append [of "[''growth  equity'']" keyword_phrases]
    by (simp add: keyword_phrases_clean)
qed

lemma double_space_least:
  "\<forall>z\<in>set keyword_phrases. phrase_key ''growth equity'' \<le> phrase_key z"
  by (simp add: keyword_phrases_def phrase_key_def word_gap_def py_split_def char_class_defs)

lemma double_space_phrase: "extract_helper_phrase ''Growth  Equity'' = ''growth equity''"
proof -
  have "select_phrase (''growth  equity'' # keyword_phrases) = ''growth equity''"
    unfolding select_phrase_def double_space_cleaned
    using hd_sort_key_first [OF double_space_least] by simp
  then show ?thesis
    by (simp add: extract_helper_phrase_def double_space_candidates)
qed

text \<open>
  Claim C7, as stated, fails: the cleaning loop strips each candidate and collapses its
  white space before the sort, so the phrase returned need not be one of the candidates.
  On a text with two spaces between two capitalised words the chunk keeps both spaces as
  a candidate, and the phrase returned has one.
\<close>

theorem selected_phrase_not_a_candidate:
  "extract_helper_phrase ''Growth  Equity'' = ''growth equity'' \<and>
   candidates ''Growth  Equity'' = ''growth  equity'' # keyword_phrases \<and>
   extract_helper_phrase ''Growth  Equity'' \<notin> set (candidates ''Growth  Equity'')"
proof -
  have "''growth equity'' \<notin> set (''growth  equity'' # keyword_phrases)"
    by (simp add: keyword_phrases_def)
  then show ?thesis
    by (simp only: double_space_phrase double_space_candidates simp_thms)
qed

text \<open>
  Claim C7, amended. For every non-empty text the phrase returned is the normalised form
  (stripped, runs of white space collapsed to one space) of a candidate, has 3 to 40
  characters, and among the normalised candidates of that length it minimises first the
  distance of the word count from 3 and then the length.
\<close>

theorem selected_phrase_minimal:
  assumes "text \<noteq> []"
  shows "(\<exists>c\<in>set (candidates text). extract_helper_phrase text = normalise c) \<and>
         len_ok (extract_helper_phrase text) \<and>
         (\<forall>c\<in>set (candidates text). len_ok (normalise c) \<longrightarrow>
            word_gap (extract_helper_phrase text) < word_gap (normalise c) \<or>
            (word_gap (extract_helper_phrase text) = word_gap (normalise c) \<and>
             length (extract_helper_phrase text) \<le> length (normalise c)))"
proof -
  let ?r = "extract_helper_phrase text"
  from assms have r: "?r = select_phrase (candidates text)"
    by (simp add: extract_helper_phrase_def)
  have mem: "?r \<in> set (clean_candidates (candidates text))"
    unfolding r by (rule select_phrase_mem) (rule cleaned_candidates_nonempty)
  then have a: "\<exists>c\<in>set (candidates text). ?r = normalise c"
    by (auto simp: clean_candidates_def)
  from mem have b: "len_ok ?r" by (rule clean_candidates_len_ok)
  have c: "word_gap ?r < word_gap (normalise c) \<or>
           (word_gap ?r = word_gap (normalise c) \<and> length ?r \<le> length (normalise c))"
    if "c \<in> set (candidates text)" and "len_ok (normalise c)" for c
  proof -
    from that have "normalise c \<in> set (clean_candidates (candidates text))"
      by (simp add: clean_candidates_def)
    then have "phrase_key ?r \<le> phrase_key (normalise c)"
      unfolding r by (rule select_phrase_least)
    then show ?thesis
      by (auto simp: phrase_key_def less_eq_prod_def)
  qed
  from a b c show ?thesis by blast
qed

theorem selected_phrase_minimal_witness:
  "''Growth  Equity'' \<noteq> [] \<and>
   (\<exists>c\<in>set (candidates ''Growth  Equity''). extract_helper_phrase ''Growth  Equity'' = normalise c) \<and>
   len_ok (extract_helper_phrase ''Growth  Equity'')"
  using selected_phrase_minimal [of "''Growth  Equity''"] by simp

section \<open>Properties of the string functions\<close>

lemma lower_char_idem: "lower_char (lower_char c) = lower_char c"
proof -
  have b: "(of_char c :: nat) < 256" by (rule nat_of_char_less_256)
  show ?thesis
    unfolding lower_char_def Let_def code_def
    using b by auto
qed

lemma py_lower_idem: "py_lower (py_lower s) = py_lower s"
  by (simp add: py_lower_def lower_char_idem)

lemma py_lower_nan: "py_lower ''nan'' = ''nan''"
  by (simp add: py_lower_def char_class_defs)

lemma py_strip_nan: "py_strip ''nan'' = ''nan''"
  by (simp add: py_strip_def char_class_defs)

lemma dropWhile_rev_prefix: "\<exists>w. t = rev (dropWhile P (rev t)) @ w"
proof -
  have "rev (takeWhile P (rev t) @ dropWhile P (rev t)) = rev (rev t)"
    by (simp only: takeWhile_dropWhile_id)
  then have "rev (dropWhile P (rev t)) @ rev (takeWhile P (rev t)) = t"
    by (simp only: rev_append rev_rev_ident)
  then have "t = rev (dropWhile P (rev t)) @ rev (takeWhile P (rev t))" by (rule sym)
  then show ?thesis ..
qed

lemma strip_idem_gen:
  "rev (dropWhile P (rev (dropWhile P (rev (dropWhile P (rev (dropWhile P s))))))) =
   rev (dropWhile P (rev (dropWhile P s)))"
proof -
  let ?t = "dropWhile P s"
  let ?u = "rev (dropWhile P (rev ?t))"
  have "dropWhile P ?u = ?u"
  proof (cases "?u = []")
    case True
    show ?thesis by (simp only: True dropWhile.simps)
  next
    case False
    obtain w where w: "?t = ?u @ w" using dropWhile_rev_prefix [of ?t P] by blast
    with False have "hd ?u = hd ?t" by (metis hd_append2)
    moreover have "?t \<noteq> []"
    proof
      assume "?t = []"
      then have "?u = []" by (simp only: rev.simps dropWhile.simps)
      with False show False ..
    qed
    then have "\<not> P (hd ?t)" by (rule hd_dropWhile)
    ultimately show ?thesis using False by (simp add: dropWhile_eq_self_iff)
  qed
  then show ?thesis by simp
qed

lemma py_strip_idem: "py_strip (py_strip s) = py_strip s"
  unfolding py_strip_def by (rule strip_idem_gen)

lemma fallback_opener_head: "\<exists>t. fallback_opener c b r = CHR ''I'' # t"
  by (simp add: fallback_opener_def)

lemma fallback_opener_not_nan: "fallback_opener c b r \<noteq> ''nan''"
  using fallback_opener_head [of c b r] by auto

lemma lower_first_fallback_not_nan: "lower_first (fallback_opener c b r) \<noteq> ''nan''"
proof -
  obtain t where "fallback_opener c b r = CHR ''I'' # t" using fallback_opener_head by blast
  then show ?thesis by (simp add: lower_first_def py_lower_def char_class_defs char_of_eq_iff)
qed

lemma lower_first_nan: "lower_first s = ''nan'' \<Longrightarrow> py_lower s = ''nan''"
proof (cases s)
  case Nil
  assume "lower_first s = ''nan''"
  with Nil show ?thesis by (simp add: lower_first_def py_lower_def)
next
  case (Cons c cs)
  assume "lower_first s = ''nan''"
  with Cons have "lower_char c = CHR ''n''" and "cs = ''an''"
    by (simp_all add: lower_first_def py_lower_def)
  with Cons show ?thesis using py_lower_nan by (simp add: py_lower_def)
qed

lemma guard_opener_not_nan:
  "guard_opener c b r o1 \<noteq> ''nan'' \<and> lower_first (guard_opener c b r o1) \<noteq> ''nan''"
proof (cases "py_lower o1 = ''nan''")
  case True
  then show ?thesis
    by (simp add: guard_opener_def fallback_opener_not_nan lower_first_fallback_not_nan)
next
  case False
  then have "o1 \<noteq> ''nan''" using py_lower_nan by auto
  moreover from False have "lower_first o1 \<noteq> ''nan''" using lower_first_nan by blast
  ultimately show ?thesis using False by (simp add: guard_opener_def)
qed

section \<open>Properties of the run loop\<close>

lemma fetch_loop_events: "ev \<in> set (snd (fetch_loop e texts us)) \<Longrightarrow> is_fetch ev"
  by (induction us arbitrary: texts)
     (auto simp: Let_def split_beta split: option.splits if_splits)

lemma fetch_site_blurb_events:
  "fetch_site_blurb e url = Inr (b, evs) \<Longrightarrow> ev \<in> set evs \<Longrightarrow> is_fetch ev"
proof -
  assume f: "fetch_site_blurb e url = Inr (b, evs)" and m: "ev \<in> set evs"
  show "is_fetch ev"
  proof (cases "url = []")
    case True
    with f m show ?thesis by (simp add: fetch_site_blurb_def)
  next
    case False
    with f obtain us where "fetch_loop e [] us = (b, evs)"
      by (auto simp: fetch_site_blurb_def split: sum.splits)
    then have "evs = snd (fetch_loop e [] us)" by simp
    with m show ?thesis using fetch_loop_events by blast
  qed
qed

lemma gpt_events:
  "ev \<in> set (snd (gpt_company_personalization e c w b r)) \<Longrightarrow> is_chat ev"
  by (auto simp: gpt_company_personalization_def split: if_splits option.splits)

lemma personalise_events:
  "personalise e a l = Inr (x, evs) \<Longrightarrow> ev \<in> set evs \<Longrightarrow> is_fetch ev \<or> is_chat ev"
  using fetch_site_blurb_events gpt_events
  by (fastforce simp: personalise_def Let_def split_beta split: if_splits sum.splits)

lemma personalise_sheet:
  "opener_from_sheet l \<noteq> [] \<Longrightarrow>
   personalise e a l =
     Inr ((opener_from_sheet l, extract_helper_phrase (opener_from_sheet l), []), [])"
  by (simp add: personalise_def)

lemma deliver_dry_run:
  "dry_run a \<Longrightarrow>
   deliver e a l subj body =
     (case open_fails e (outbox a) (preview_name (company l) (email l)) of
        Some err \<Rightarrow> Inl (Uncaught err)
      | None \<Rightarrow>
          Inr (''PREVIEWED'',
               [WritePreview (outbox a) (preview_name (company l) (email l))
                  (preview_content (email l) subj body)]))"
  by (simp add: deliver_def)

lemma deliver_events:
  "deliver e a l subj body = Inr (res, evs) \<Longrightarrow> ev \<in> set evs \<Longrightarrow>
   \<not> is_fetch ev \<and> \<not> is_chat ev"
  by (auto simp: deliver_def send_email_def Let_def split: if_splits option.splits)

lemma compose_lead_eq:
  assumes "personalise e a l = Inr ((opener0, hp, blurb), evs1)"
  shows "compose_lead e a n l =
     (let opener = guard_opener (company l) blurb (role a) opener0;
          subj = subject_line (company l) hp;
          body = build_email_body (company l) [] opener (website l) (from_name a)
      in case deliver e a l subj body of
           Inl f \<Rightarrow> Inl f
         | Inr (result, evs2) \<Rightarrow>
             Inr (\<lparr>r_timestamp = utcnow e n @ ''Z'', r_company = company l, r_email = email l,
                   r_website = website l, r_greeting = [], r_first_line = opener,
                   r_subject = subj, r_result = result\<rparr>,
                  evs1 @ evs2))"
  using assms by (simp add: compose_lead_def Let_def)

text \<open>What a row that was composed without an exception went through.\<close>

lemma compose_lead_Inr:
  assumes "compose_lead e a n l = Inr (rec, evs)"
  obtains opener0 hp blurb evs1 evs2 where
    "personalise e a l = Inr ((opener0, hp, blurb), evs1)"
    "r_first_line rec = guard_opener (company l) blurb (role a) opener0"
    "r_subject rec = subject_line (company l) hp"
    "r_company rec = company l" "r_email rec = email l" "r_website rec = website l"
    "deliver e a l (r_subject rec)
       (build_email_body (company l) [] (r_first_line rec) (website l) (from_name a)) =
     Inr (r_result rec, evs2)"
    "evs = evs1 @ evs2"
proof -
  from assms obtain opener0 hp blurb evs1
    where p: "personalise e a l = Inr ((opener0, hp, blurb), evs1)"
    by (auto simp: compose_lead_def split: sum.splits)
  let ?opener = "guard_opener (company l) blurb (role a) opener0"
  let ?subj = "subject_line (company l) hp"
  let ?body = "build_email_body (company l) [] ?opener (website l) (from_name a)"
  from assms compose_lead_eq [OF p, of n] obtain result evs2
    where d: "deliver e a l ?subj ?body = Inr (result, evs2)"
      and r: "rec = \<lparr>r_timestamp = utcnow e n @ ''Z'', r_company = company l,
                     r_email = email l, r_website = website l, r_greeting = [],
                     r_first_line = ?opener, r_subject = ?subj, r_result = result\<rparr>"
      and v: "evs = evs1 @ evs2"
    by (auto simp: Let_def split: sum.splits)
  from p d r v that [of opener0 hp blurb evs1 evs2] show thesis by simp
qed

lemma row_outcome_Some:
  "row_outcome e a cols n r = Inr (Some x) \<longleftrightarrow>
     \<not> skip_lead (read_lead cols r) \<and> compose_lead e a n (read_lead cols r) = Inr x"
  by (auto simp: row_outcome_def Let_def split: sum.splits)

lemma row_outcome_None:
  "row_outcome e a cols n r = Inr None \<longleftrightarrow> skip_lead (read_lead cols r)"
  by (auto simp: row_outcome_def Let_def split: sum.splits)

lemma row_outcome_kept:
  "\<not> skip_lead (read_lead cols r) \<Longrightarrow>
   row_outcome e a cols n r =
     (case compose_lead e a n (read_lead cols r) of Inl f \<Rightarrow> Inl f | Inr c \<Rightarrow> Inr (Some c))"
  by (simp add: row_outcome_def Let_def)

lemma skipped_row_unchanged:
  "skip_lead (read_lead cols r) \<Longrightarrow> process_row e a cols st r = Inr st"
  by (simp add: process_row_def row_outcome_def Let_def)

lemma empty_field_row_skipped:
  "company (read_lead cols r) = [] \<or> email (read_lead cols r) = [] \<Longrightarrow>
   process_row e a cols st r = Inr st"
  by (rule skipped_row_unchanged) (auto simp: skip_lead_def)

lemma terminal_status_row_skipped:
  "py_lower (status (read_lead cols r)) \<in> {''sent'', ''done'', ''bounced''} \<Longrightarrow>
   process_row e a cols st r = Inr st"
  by (rule skipped_row_unchanged) (simp add: skip_lead_def)

lemma processed_row_counts:
  assumes "\<not> skip_lead (read_lead cols r)"
    and "process_row e a cols st r = Inr st'"
  shows "\<exists>rec evs. row_outcome e a cols (processed st) r = Inr (Some (rec, evs)) \<and>
           st' = \<lparr>sent_log = sent_log st @ [rec], processed = Suc (processed st),
                  events = events st @ evs\<rparr>"
  using assms
  by (auto simp: process_row_def row_outcome_None split: sum.splits option.splits)

lemma raising_row_ends_loop:
  "row_outcome e a cols (processed st) r = Inl f \<Longrightarrow> int (processed st) < max_rows a \<Longrightarrow>
   run_rows e a cols st (r # rs) = Inl f"
  by (simp add: process_row_def)

lemma raising_loop_ends_run:
  "run_loop e a df = Inl f \<Longrightarrow> \<exists>f'. main e a df old = Inl f'"
  by (simp add: main_def split: option.splits)

lemma filter_none: "(\<And>x. x \<in> set xs \<Longrightarrow> \<not> P x) \<Longrightarrow> filter P xs = []"
  by (induction xs) auto

lemma fetch_or_chat_kind:
  "is_fetch ev \<or> is_chat ev \<Longrightarrow> \<not> is_send ev \<and> \<not> is_preview ev"
  by (cases ev) auto

text \<open>In the world \<open>offline\<close>, and in \<open>flat_outbox\<close>, nothing raises before the delivery.\<close>

lemma offline_personalise:
  "\<exists>x evs. personalise offline a l = Inr (x, evs)"
  by (auto simp: personalise_def fetch_site_blurb_def candidate_urls_def offline_def Let_def
      split_beta split: sum.splits)

lemma flat_outbox_personalise:
  "\<exists>x evs. personalise flat_outbox a l = Inr (x, evs)"
  by (auto simp: personalise_def fetch_site_blurb_def candidate_urls_def offline_def
      flat_outbox_def Let_def split_beta split: sum.splits)

lemma offline_dry_run_composes:
  "dry_run a \<Longrightarrow> \<exists>rec evs. compose_lead offline a n l = Inr (rec, evs)"
proof -
  assume d: "dry_run a"
  obtain x evs where "personalise offline a l = Inr (x, evs)"
    using offline_personalise by blast
  then have p: "personalise offline a l = Inr ((fst x, fst (snd x), snd (snd x)), evs)"
    by simp
  have "open_fails offline d' f = None" for d' f by (simp add: offline_def)
  with d show ?thesis
    by (simp add: compose_lead_eq [OF p] deliver_dry_run Let_def)
qed

lemma offline_dry_run_processes:
  "dry_run a \<Longrightarrow> \<not> skip_lead (read_lead cols r) \<Longrightarrow>
   \<exists>rec evs. row_outcome offline a cols n r = Inr (Some (rec, evs))"
  using offline_dry_run_composes [of a n "read_lead cols r"]
  by (auto simp: row_outcome_Some)

lemma processed_withI:
  "out = Inr (Some (rec, evs)) \<Longrightarrow> P rec evs \<Longrightarrow> processed_with out P"
  by (simp add: processed_with_def)

text \<open>
  Claim C3. For every processed row, the opener in the log record and in the composed
  body is never the text \<^verbatim>\<open>nan\<close>, also after the body lower-cases its first
  character: an opener that lower-cases to \<^verbatim>\<open>nan\<close> is replaced by the fallback opener
  before subject and body are composed, and every other opener is kept.
\<close>

theorem opener_never_nan:
  assumes "row_outcome e a cols n r = Inr (Some (rec, evs))"
    and "personalise e a (read_lead cols r) = Inr ((opener0, hp, blurb), evs1)"
  shows "(let l = read_lead cols r in
          r_first_line rec \<noteq> ''nan'' \<and>
          lower_first (r_first_line rec) \<noteq> ''nan'' \<and>
          r_first_line rec =
            (if py_lower opener0 = ''nan'' then fallback_opener (company l) blurb (role a)
             else opener0) \<and>
          (\<exists>evs2. deliver e a l (r_subject rec)
                    (build_email_body (company l) [] (r_first_line rec) (website l)
                       (from_name a)) = Inr (r_result rec, evs2) \<and>
                  evs = evs1 @ evs2))"
proof -
  let ?l = "read_lead cols r"
  from assms(1) have c: "compose_lead e a n ?l = Inr (rec, evs)"
    by (simp add: row_outcome_Some)
  from c obtain o' h' b' e1 e2 where
    p: "personalise e a ?l = Inr ((o', h', b'), e1)"
    and fl: "r_first_line rec = guard_opener (company ?l) b' (role a) o'"
    and d: "deliver e a ?l (r_subject rec)
              (build_email_body (company ?l) [] (r_first_line rec) (website ?l) (from_name a)) =
            Inr (r_result rec, e2)"
    and v: "evs = e1 @ e2"
    by (rule compose_lead_Inr)
  from p assms(2) have eq: "o' = opener0" "b' = blurb" "e1 = evs1" by simp_all
  from fl eq have rec: "r_first_line rec = guard_opener (company ?l) blurb (role a) opener0"
    by simp
  from rec guard_opener_not_nan [of "company ?l" blurb "role a" opener0]
  have "r_first_line rec \<noteq> ''nan''" and "lower_first (r_first_line rec) \<noteq> ''nan''"
    by simp_all
  moreover from rec have "r_first_line rec =
     (if py_lower opener0 = ''nan'' then fallback_opener (company ?l) blurb (role a)
      else opener0)"
    by (simp add: guard_opener_def)
  moreover from d v eq have "\<exists>evs2. deliver e a ?l (r_subject rec)
        (build_email_body (company ?l) [] (r_first_line rec) (website ?l) (from_name a)) =
        Inr (r_result rec, evs2) \<and> evs = evs1 @ evs2"
    by blast
  ultimately show ?thesis by (simp add: Let_def)
qed

lemma sheet_lead:
  "read_lead lead_columns sheet_row =
     \<lparr>company = ''Acme Capital'', email = ''a@acme.com'', website = ''acme.com'',
      opener_from_sheet = ''We like your Growth Equity work'', status = ''nan''\<rparr>"
  by (simp add: read_lead_def lead_columns_def sheet_row_def row_get_def py_str_def isna_def
      py_strip_def char_class_defs)

lemma sheet_lead_kept: "\<not> skip_lead (read_lead lead_columns sheet_row)"
  by (simp add: sheet_lead skip_lead_def py_lower_def char_class_defs)

lemma acme_lead:
  "read_lead lead_columns acme_row =
     \<lparr>company = ''Acme Capital'', email = ''a@acme.com'', website = ''nan'',
      opener_from_sheet = [], status = ''nan''\<rparr>"
  by (simp add: read_lead_def lead_columns_def acme_row_def row_get_def py_str_def isna_def
      py_strip_def char_class_defs)

lemma acme_lead_kept: "\<not> skip_lead (read_lead lead_columns acme_row)"
  by (simp add: acme_lead skip_lead_def py_lower_def char_class_defs)

lemma preview_args_dry: "dry_run preview_args"
  by (simp add: preview_args_def)

theorem opener_never_nan_witness:
  "processed_with (row_outcome offline preview_args lead_columns 0 sheet_row)
     (\<lambda>rec evs. r_first_line rec \<noteq> ''nan'' \<and>
        r_first_line rec = ''We like your Growth Equity work'')"
proof -
  let ?l = "read_lead lead_columns sheet_row"
  obtain rec evs
    where h1: "row_outcome offline preview_args lead_columns 0 sheet_row = Inr (Some (rec, evs))"
    using offline_dry_run_processes [OF preview_args_dry sheet_lead_kept] by blast
  have "opener_from_sheet ?l \<noteq> []" by (simp add: sheet_lead)
  then have h2: "personalise offline preview_args ?l =
      Inr ((opener_from_sheet ?l, extract_helper_phrase (opener_from_sheet ?l), []), [])"
    by (rule personalise_sheet)
  have n: "py_lower ''We like your Growth Equity work'' \<noteq> ''nan''"
    by (simp add: py_lower_def)
  have "r_first_line rec \<noteq> ''nan'' \<and> r_first_line rec = ''We like your Growth Equity work''"
    using opener_never_nan [OF h1 h2] n unfolding Let_def by (simp add: sheet_lead)
  with h1 show ?thesis by (rule processed_withI)
qed

text \<open>
  Claim C2. For every processed row, the subject is the fixed template with the row's
  stripped company and the stripped, lower-cased helper phrase; lower-casing the
  substituted phrase again changes nothing.
\<close>

theorem subject_follows_template:
  assumes "row_outcome e a cols n r = Inr (Some (rec, evs))"
    and "personalise e a (read_lead cols r) = Inr ((opener0, hp, blurb), evs1)"
  shows "r_subject rec =
           ''Msci AI student willing to help '' @ py_strip (py_str (row_get r ''Company''))
           @ '' with '' @ py_lower (py_strip hp) \<and>
         r_subject rec = subject_line (r_company rec) hp \<and>
         py_lower (py_lower (py_strip hp)) = py_lower (py_strip hp)"
proof -
  let ?l = "read_lead cols r"
  from assms(1) have c: "compose_lead e a n ?l = Inr (rec, evs)"
    by (simp add: row_outcome_Some)
  from c obtain o' h' b' e1 e2 where
    p: "personalise e a ?l = Inr ((o', h', b'), e1)"
    and s: "r_subject rec = subject_line (company ?l) h'"
    and co: "r_company rec = company ?l"
    by (rule compose_lead_Inr)
  from p assms(2) have "h' = hp" by simp
  with s have sub: "r_subject rec = subject_line (company ?l) hp" by simp
  have c: "company ?l = py_strip (py_str (row_get r ''Company''))"
    by (simp add: read_lead_def)
  from sub c have "r_subject rec =
           ''Msci AI student willing to help '' @ py_strip (py_str (row_get r ''Company''))
           @ '' with '' @ py_lower (py_strip hp)"
    by (simp add: subject_line_def py_strip_idem)
  with sub co show ?thesis by (simp add: py_lower_idem)
qed

theorem subject_follows_template_witness:
  "processed_with (row_outcome offline preview_args lead_columns 0 sheet_row)
     (\<lambda>rec evs. r_subject rec =
        ''Msci AI student willing to help Acme Capital with ''
        @ py_lower (py_strip (extract_helper_phrase ''We like your Growth Equity work'')))"
proof -
  let ?l = "read_lead lead_columns sheet_row"
  obtain rec evs
    where h1: "row_outcome offline preview_args lead_columns 0 sheet_row = Inr (Some (rec, evs))"
    using offline_dry_run_processes [OF preview_args_dry sheet_lead_kept] by blast
  have "opener_from_sheet ?l \<noteq> []" by (simp add: sheet_lead)
  then have h2: "personalise offline preview_args ?l =
      Inr ((opener_from_sheet ?l, extract_helper_phrase (opener_from_sheet ?l), []), [])"
    by (rule personalise_sheet)
  have "py_strip (py_str (row_get sheet_row ''Company'')) = ''Acme Capital''"
    by (simp add: sheet_row_def row_get_def py_str_def py_strip_def char_class_defs)
  with subject_follows_template [OF h1 h2]
  have "r_subject rec =
     ''Msci AI student willing to help Acme Capital with ''
     @ py_lower (py_strip (extract_helper_phrase ''We like your Growth Equity work''))"
    by (simp add: sheet_lead)
  with h1 show ?thesis by (rule processed_withI)
qed

text \<open>
  Claim C5, amended. For a processed row with a non-empty first-line override, no page is
  fetched and the chat-completion service is not called; the helper phrase is extracted
  from the override, and the override is the opener unless it lower-cases to
  \<^verbatim>\<open>nan\<close>, in which case the safety check replaces it by the fallback opener for an
  empty blurb.
\<close>

theorem sheet_opener_skips_generation:
  assumes "row_outcome e a cols n r = Inr (Some (rec, evs))"
    and "opener_from_sheet (read_lead cols r) \<noteq> []"
  shows "(let l = read_lead cols r; sheet = opener_from_sheet l in
          filter is_fetch evs = [] \<and>
          filter is_chat evs = [] \<and>
          r_subject rec = subject_line (company l) (extract_helper_phrase sheet) \<and>
          r_first_line rec =
            (if py_lower sheet = ''nan'' then fallback_opener (company l) [] (role a)
             else sheet))"
proof -
  let ?l = "read_lead cols r"
  let ?s = "opener_from_sheet ?l"
  have ps: "personalise e a ?l = Inr ((?s, extract_helper_phrase ?s, []), [])"
    using assms(2) by (rule personalise_sheet)
  from assms(1) have c: "compose_lead e a n ?l = Inr (rec, evs)"
    by (simp add: row_outcome_Some)
  from c obtain o' h' b' e1 e2 where
    p: "personalise e a ?l = Inr ((o', h', b'), e1)"
    and fl': "r_first_line rec = guard_opener (company ?l) b' (role a) o'"
    and sub': "r_subject rec = subject_line (company ?l) h'"
    and d: "deliver e a ?l (r_subject rec)
              (build_email_body (company ?l) [] (r_first_line rec) (website ?l) (from_name a)) =
            Inr (r_result rec, e2)"
    and v: "evs = e1 @ e2"
    by (rule compose_lead_Inr)
  from p ps have eq: "o' = ?s" "h' = extract_helper_phrase ?s" "b' = []" "e1 = []"
    by auto
  from fl' eq have fl: "r_first_line rec = guard_opener (company ?l) [] (role a) ?s" by simp
  from sub' eq have sub: "r_subject rec = subject_line (company ?l) (extract_helper_phrase ?s)"
    by simp
  from v eq have evs: "evs = e2" by simp
  have "\<not> is_fetch ev \<and> \<not> is_chat ev" if "ev \<in> set evs" for ev
    using that evs d deliver_events by blast
  then have "filter is_fetch evs = []" and "filter is_chat evs = []"
    by (simp_all add: filter_none)
  with fl sub show ?thesis by (simp add: Let_def guard_opener_def)
qed

theorem sheet_opener_skips_generation_witness:
  "opener_from_sheet (read_lead lead_columns sheet_row) \<noteq> [] \<and>
   processed_with (row_outcome offline preview_args lead_columns 0 sheet_row)
     (\<lambda>rec evs. filter is_fetch evs = [] \<and> filter is_chat evs = [])"
proof -
  let ?l = "read_lead lead_columns sheet_row"
  obtain rec evs
    where h1: "row_outcome offline preview_args lead_columns 0 sheet_row = Inr (Some (rec, evs))"
    using offline_dry_run_processes [OF preview_args_dry sheet_lead_kept] by blast
  have h2: "opener_from_sheet ?l \<noteq> []" by (simp add: sheet_lead)
  have "filter is_fetch evs = [] \<and> filter is_chat evs = []"
    using sheet_opener_skips_generation [OF h1 h2] unfolding Let_def by blast
  with h1 have "processed_with (row_outcome offline preview_args lead_columns 0 sheet_row)
     (\<lambda>rec evs. filter is_fetch evs = [] \<and> filter is_chat evs = [])"
    by (rule processed_withI)
  with h2 show ?thesis by (rule conjI)
qed

lemma nan_opener_lead:
  "read_lead lead_columns nan_opener_row =
     \<lparr>company = ''Acme Capital'', email = ''a@acme.com'', website = ''acme.com'',
      opener_from_sheet = ''NAN'', status = ''nan''\<rparr>"
  by (simp add: read_lead_def lead_columns_def nan_opener_row_def row_get_def py_str_def isna_def
      py_strip_def char_class_defs)

text \<open>
  Claim C5, as stated, fails: the override \<^verbatim>\<open>NAN\<close> is a non-empty text, the row is
  processed, and the opener of the message is the fallback opener, not the override.
\<close>

theorem sheet_opener_replaced:
  "opener_from_sheet (read_lead lead_columns nan_opener_row) = ''NAN'' \<and>
   processed_with (row_outcome offline preview_args lead_columns 0 nan_opener_row)
     (\<lambda>rec evs.
        r_first_line rec = fallback_opener ''Acme Capital'' [] ''AI/Software Engineer Intern'' \<and>
        r_first_line rec \<noteq> ''NAN'')"
proof -
  let ?l = "read_lead lead_columns nan_opener_row"
  have s: "opener_from_sheet ?l = ''NAN''" by (simp add: nan_opener_lead)
  have k: "\<not> skip_lead ?l"
    by (simp add: nan_opener_lead skip_lead_def py_lower_def char_class_defs)
  obtain rec evs
    where h1: "row_outcome offline preview_args lead_columns 0 nan_opener_row =
                 Inr (Some (rec, evs))"
    using offline_dry_run_processes [OF preview_args_dry k] by blast
  then have c: "compose_lead offline preview_args 0 ?l = Inr (rec, evs)"
    by (simp add: row_outcome_Some)
  have "opener_from_sheet ?l \<noteq> []" by (simp add: s)
  then have ps: "personalise offline preview_args ?l =
      Inr ((opener_from_sheet ?l, extract_helper_phrase (opener_from_sheet ?l), []), [])"
    by (rule personalise_sheet)
  from c obtain o' h' b' e1 e2 where
    p: "personalise offline preview_args ?l = Inr ((o', h', b'), e1)"
    and fl': "r_first_line rec = guard_opener (company ?l) b' (role preview_args) o'"
    by (rule compose_lead_Inr)
  from p ps s have "o' = ''NAN''" "b' = []" by auto
  with fl' have fl: "r_first_line rec = guard_opener (company ?l) [] (role preview_args) ''NAN''"
    by simp
  have lo: "py_lower ''NAN'' = ''nan''"
    by (simp add: py_lower_def char_class_defs char_of_eq_iff)
  from fl have f: "r_first_line rec =
      fallback_opener ''Acme Capital'' [] ''AI/Software Engineer Intern''"
    by (simp add: guard_opener_def lo nan_opener_lead preview_args_def)
  obtain t where "fallback_opener ''Acme Capital'' [] ''AI/Software Engineer Intern'' = CHR ''I'' # t"
    using fallback_opener_head by blast
  with f have "r_first_line rec \<noteq> ''NAN''" by simp
  with f have "r_first_line rec =
      fallback_opener ''Acme Capital'' [] ''AI/Software Engineer Intern'' \<and>
      r_first_line rec \<noteq> ''NAN''" by simp
  with h1 have "processed_with (row_outcome offline preview_args lead_columns 0 nan_opener_row)
     (\<lambda>rec evs.
        r_first_line rec = fallback_opener ''Acme Capital'' [] ''AI/Software Engineer Intern'' \<and>
        r_first_line rec \<noteq> ''NAN'')"
    by (rule processed_withI)
  with s show ?thesis by (rule conjI)
qed

lemma sheet_row_events:
  assumes "row_outcome e a cols n r = Inr (Some (rec, evs))"
    and "opener_from_sheet (read_lead cols r) \<noteq> []"
  shows "filter is_fetch evs = [] \<and> filter is_chat evs = []"
proof -
  let ?l = "read_lead cols r"
  let ?s = "opener_from_sheet ?l"
  have ps: "personalise e a ?l = Inr ((?s, extract_helper_phrase ?s, []), [])"
    using assms(2) by (rule personalise_sheet)
  from assms(1) have c: "compose_lead e a n ?l = Inr (rec, evs)"
    by (simp add: row_outcome_Some)
  from c obtain o' h' b' e1 e2 where
    p: "personalise e a ?l = Inr ((o', h', b'), e1)"
    and d: "deliver e a ?l (r_subject rec)
              (build_email_body (company ?l) [] (r_first_line rec) (website ?l) (from_name a)) =
            Inr (r_result rec, e2)"
    and v: "evs = e1 @ e2"
    by (rule compose_lead_Inr)
  from p ps have "e1 = []" by auto
  with v have evs: "evs = e2" by simp
  have "\<not> is_fetch ev \<and> \<not> is_chat ev" if "ev \<in> set evs" for ev
    using that evs d deliver_events by blast
  then show ?thesis by (simp add: filter_none)
qed

lemma underscore_runs_sub:
  "underscore_runs False s = re_sub_class (\<lambda>c. \<not> safe_char c) ''_'' s \<and>
   underscore_runs True s =
     re_sub_class (\<lambda>c. \<not> safe_char c) ''_'' (dropWhile (\<lambda>c. \<not> safe_char c) s)"
  by (induction s) simp_all

lemma safe_company_runs: "safe_company c = take 60 (underscore_runs False c)"
  by (simp add: safe_company_def underscore_runs_sub)

lemma personalise_no_send_preview:
  assumes "personalise e a l = Inr (x, evs1)"
  shows "filter is_send evs1 = [] \<and> filter is_preview evs1 = []"
proof -
  have "\<not> is_send ev \<and> \<not> is_preview ev" if "ev \<in> set evs1" for ev
    using that assms personalise_events fetch_or_chat_kind by blast
  then show ?thesis by (simp add: filter_none)
qed

text \<open>
  Claim C4, amended. In a dry run, a processed row sends nothing over SMTP and writes
  exactly one preview file. Its name is the company with every maximal run of characters
  other than ASCII letters, digits, underscore, dot and hyphen replaced by one underscore
  and cut to 60 characters, then two underscores, the recipient address as it is, and
  \<^verbatim>\<open>.txt\<close>; its content is the recipient, the subject and the body. A row whose
  preview file cannot be written is not processed: the exception is not caught and ends
  the run.
\<close>

theorem dry_run_writes_one_preview:
  assumes "dry_run a"
  shows "(let l = read_lead cols r;
              name = take 60 (underscore_runs False (company l)) @ ''__'' @ email l @ ''.txt''
          in (row_outcome e a cols n r = Inr (Some (rec, evs)) \<longrightarrow>
                open_fails e (outbox a) name = None \<and>
                filter is_send evs = [] \<and>
                filter is_preview evs =
                  [WritePreview (outbox a) name
                     (''TO: '' @ email l @ nl @ ''SUBJECT: '' @ r_subject rec @ nl @ nl
                      @ build_email_body (company l) [] (r_first_line rec) (website l)
                          (from_name a))] \<and>
                r_result rec = ''PREVIEWED'') \<and>
             (\<not> skip_lead l \<longrightarrow> personalise e a l = Inr (p, evs1) \<longrightarrow>
              open_fails e (outbox a) name = Some err \<longrightarrow>
                row_outcome e a cols n r = Inl (Uncaught err)) \<and>
             length (take 60 (underscore_runs False (company l))) \<le> 60)"
proof -
  let ?l = "read_lead cols r"
  let ?name = "take 60 (underscore_runs False (company ?l)) @ ''__'' @ email ?l @ ''.txt''"
  have name: "preview_name (company ?l) (email ?l) = ?name"
    by (simp add: preview_name_def safe_company_runs)
  have ok: "open_fails e (outbox a) ?name = None \<and>
            filter is_send evs = [] \<and>
            filter is_preview evs =
              [WritePreview (outbox a) ?name
                 (''TO: '' @ email ?l @ nl @ ''SUBJECT: '' @ r_subject rec @ nl @ nl
                  @ build_email_body (company ?l) [] (r_first_line rec) (website ?l)
                      (from_name a))] \<and>
            r_result rec = ''PREVIEWED''"
    if h: "row_outcome e a cols n r = Inr (Some (rec, evs))"
  proof -
    let ?body = "build_email_body (company ?l) [] (r_first_line rec) (website ?l) (from_name a)"
    from h have c: "compose_lead e a n ?l = Inr (rec, evs)"
      by (simp add: row_outcome_Some)
    from c obtain o' h' b' e1 e2 where
      p: "personalise e a ?l = Inr ((o', h', b'), e1)"
      and d: "deliver e a ?l (r_subject rec) ?body = Inr (r_result rec, e2)"
      and v: "evs = e1 @ e2"
      by (rule compose_lead_Inr)
    from d deliver_dry_run [OF assms, of e ?l "r_subject rec" ?body]
    have o: "open_fails e (outbox a) ?name = None"
      and res: "r_result rec = ''PREVIEWED''"
      and e2: "e2 = [WritePreview (outbox a) ?name (preview_content (email ?l) (r_subject rec) ?body)]"
      by (auto simp: name split: option.splits)
    from personalise_no_send_preview [OF p] v e2 o res show ?thesis
      by (simp add: preview_content_def)
  qed
  have bad: "row_outcome e a cols n r = Inl (Uncaught err)"
    if k: "\<not> skip_lead ?l" and p: "personalise e a ?l = Inr (p, evs1)"
      and f: "open_fails e (outbox a) ?name = Some err"
  proof -
    from p have p': "personalise e a ?l = Inr ((fst p, fst (snd p), snd (snd p)), evs1)"
      by simp
    from f have "deliver e a ?l subj body = Inl (Uncaught err)" for subj body
      by (simp add: deliver_dry_run [OF assms] name)
    then have "compose_lead e a n ?l = Inl (Uncaught err)"
      by (simp add: compose_lead_eq [OF p'] Let_def)
    with k show ?thesis by (simp add: row_outcome_kept)
  qed
  from ok bad show ?thesis by (simp add: Let_def)
qed

lemma slash_lead:
  "read_lead lead_columns slash_row =
     \<lparr>company = ''Acme Capital'', email = ''sales/team@acme.com'', website = ''acme.com'',
      opener_from_sheet = [], status = ''nan''\<rparr>"
  by (simp add: read_lead_def lead_columns_def slash_row_def row_get_def py_str_def isna_def
      py_strip_def char_class_defs)

lemma slash_lead_kept: "\<not> skip_lead (read_lead lead_columns slash_row)"
  by (simp add: slash_lead skip_lead_def py_lower_def char_class_defs)

theorem dry_run_writes_one_preview_witness:
  "dry_run preview_args \<and>
   processed_with (row_outcome offline preview_args lead_columns 0 sheet_row)
     (\<lambda>rec evs. r_result rec = ''PREVIEWED'' \<and> filter is_send evs = [] \<and>
        length (filter is_preview evs) = 1) \<and>
   row_outcome flat_outbox preview_args lead_columns 0 slash_row =
     Inl (Uncaught ''[Errno 2] No such file or directory'')"
proof -
  obtain rec evs
    where h1: "row_outcome offline preview_args lead_columns 0 sheet_row = Inr (Some (rec, evs))"
    using offline_dry_run_processes [OF preview_args_dry sheet_lead_kept] by blast
  have "r_result rec = ''PREVIEWED'' \<and> filter is_send evs = [] \<and>
        length (filter is_preview evs) = 1"
    using dry_run_writes_one_preview [OF preview_args_dry, where cols = lead_columns
        and r = sheet_row and e = offline and n = 0 and rec = rec and evs = evs] h1
    unfolding Let_def by simp
  with h1 have a: "processed_with (row_outcome offline preview_args lead_columns 0 sheet_row)
     (\<lambda>rec evs. r_result rec = ''PREVIEWED'' \<and> filter is_send evs = [] \<and>
        length (filter is_preview evs) = 1)"
    by (rule processed_withI)
  let ?l = "read_lead lead_columns slash_row"
  obtain x evs1 where p: "personalise flat_outbox preview_args ?l = Inr (x, evs1)"
    using flat_outbox_personalise by blast
  have f: "open_fails flat_outbox (outbox preview_args)
             (take 60 (underscore_runs False (company ?l)) @ ''__'' @ email ?l @ ''.txt'') =
           Some ''[Errno 2] No such file or directory''"
    by (simp add: flat_outbox_def offline_def slash_lead)
  have b: "row_outcome flat_outbox preview_args lead_columns 0 slash_row =
     Inl (Uncaught ''[Errno 2] No such file or directory'')"
    using dry_run_writes_one_preview [OF preview_args_dry, where cols = lead_columns
        and r = slash_row and e = flat_outbox and n = 0 and p = x and ?evs1.0 = evs1
        and err = "''[Errno 2] No such file or directory''"]
      slash_lead_kept p f
    unfolding Let_def by blast
  from preview_args_dry a b show ?thesis by simp
qed

lemma slash_recipient_ends_run:
  "main flat_outbox preview_args \<lparr>columns = lead_columns, rows = [slash_row]\<rparr> old =
     Inl (Uncaught ''[Errno 2] No such file or directory'')"
proof -
  let ?l = "read_lead lead_columns slash_row"
  obtain x evs1 where p: "personalise flat_outbox preview_args ?l = Inr (x, evs1)"
    using flat_outbox_personalise by blast
  then have p': "personalise flat_outbox preview_args ?l =
      Inr ((fst x, fst (snd x), snd (snd x)), evs1)" by simp
  have "deliver flat_outbox preview_args ?l subj body =
          Inl (Uncaught ''[Errno 2] No such file or directory'')" for subj body
    by (simp add: deliver_dry_run [OF preview_args_dry] flat_outbox_def offline_def slash_lead
        preview_name_def)
  then have "compose_lead flat_outbox preview_args 0 ?l =
      Inl (Uncaught ''[Errno 2] No such file or directory'')"
    by (simp add: compose_lead_eq [OF p'] Let_def)
  with slash_lead_kept have "row_outcome flat_outbox preview_args lead_columns 0 slash_row =
      Inl (Uncaught ''[Errno 2] No such file or directory'')"
    by (simp add: row_outcome_kept)
  then have "run_loop flat_outbox preview_args \<lparr>columns = lead_columns, rows = [slash_row]\<rparr> =
      Inl (Uncaught ''[Errno 2] No such file or directory'')"
    by (simp add: run_loop_def process_row_def preview_args_def)
  then show ?thesis
    by (simp add: main_def preview_args_def flat_outbox_def offline_def lead_columns_def)
qed

text \<open>
  Claim C4, as stated, fails: dots and hyphens of the company are kept in the file name,
  and a run of other characters becomes a single underscore, not one for each character.
\<close>

theorem preview_name_keeps_dots:
  "safe_company ''J.P. Morgan & Co'' = ''J.P._Morgan_Co'' \<and>
   claimed_safe_company ''J.P. Morgan & Co'' = ''J_P__Morgan___Co'' \<and>
   preview_name ''J.P. Morgan & Co'' ''a@jpm.com'' = ''J.P._Morgan_Co__a@jpm.com.txt'' \<and>
   safe_company ''J.P. Morgan & Co'' \<noteq> claimed_safe_company ''J.P. Morgan & Co''"
  by (simp add: safe_company_def claimed_safe_company_def preview_name_def safe_char_def
      char_class_defs)

lemma website_line:
  "suffix (''Website noted: '' @ (if w \<noteq> [] then w else ''-'') @ nl)
     (build_email_body c g opener w your_name)"
proof -
  define pre where "pre =
     (if g = [] then ''Hello '' @ c @ '' team. I hope this message finds you in good health,''
      else g) @ nl @ nl
     @ (if opener \<noteq> [] then ''I'm fascinated by how '' @ lower_first opener
        else ''I'm fascinated by how your work fits into the broader finance and technology landscape.'')
     @ nl @ nl @ RESUME_PARAGRAPH @ nl @ nl @ LONDON_CLOSING @ nl @ nl @ ''Best,'' @ nl
     @ your_name @ nl @ YOUR_DEGREE @ nl @ ''Phone: '' @ YOUR_PHONE @ nl
     @ ''Email: '' @ YOUR_EMAIL @ nl @ ''GitHub: '' @ YOUR_GITHUB @ nl
     @ ''LinkedIn: '' @ YOUR_LINKEDIN @ nl"
  have "build_email_body c g opener w your_name =
          pre @ (''Website noted: '' @ (if w \<noteq> [] then w else ''-'') @ nl)"
    by (simp add: build_email_body_def pre_def Let_def)
  then show ?thesis by (rule suffixI)
qed

lemma fetch_loop_first:
  "\<exists>b rest. fetch_loop e texts (u # us) = (b, HttpGet u # rest)"
  by (auto simp: Let_def split_beta split: option.splits)

lemma fetch_nan_first:
  assumes "fetch_site_blurb e ''nan'' = Inr (b, evs1)"
  shows "\<exists>rest. evs1 = HttpGet ''http://nan'' # rest"
proof -
  have w: "with_scheme ''nan'' = ''http://nan''"
    by (simp add: with_scheme_def startswith_def)
  from assms obtain us where c: "candidate_urls e ''http://nan'' = Inr us"
    and f: "fetch_loop e [] us = (b, evs1)"
    by (auto simp: fetch_site_blurb_def w split: sum.splits)
  from c obtain us' where "us = ''http://nan'' # us'"
    by (auto simp: candidate_urls_def split: sum.splits)
  with f fetch_loop_first [of e "[]" "''http://nan''" us'] show ?thesis by auto
qed

text \<open>
  Claim C10, amended. A missing Website cell of a processed row reads as the text
  \<^verbatim>\<open>nan\<close>: the log record has it and the body ends with the line
  \<^verbatim>\<open>Website noted: nan\<close>. When the row has no first-line override, the first request
  goes to \<^verbatim>\<open>http://nan\<close>; when it has one, no page is fetched. A missing First Line
  cell reads as the empty text.
\<close>

theorem missing_website_is_nan:
  assumes "r ''Website'' = Some NaN"
    and "row_outcome e a cols n r = Inr (Some (rec, evs))"
  shows "(let l = read_lead cols r;
              body = build_email_body (company l) [] (r_first_line rec) (website l) (from_name a)
          in website l = ''nan'' \<and>
             r_website rec = ''nan'' \<and>
             suffix (''Website noted: nan'' @ nl) body \<and>
             (\<exists>x evs1 evs2. personalise e a l = Inr (x, evs1) \<and>
                deliver e a l (r_subject rec) body = Inr (r_result rec, evs2) \<and>
                evs = evs1 @ evs2) \<and>
             (opener_from_sheet l = [] \<longrightarrow> (\<exists>rest. evs = HttpGet ''http://nan'' # rest)) \<and>
             (opener_from_sheet l \<noteq> [] \<longrightarrow> filter is_fetch evs = []) \<and>
             (r ''First Line'' = Some NaN \<longrightarrow> opener_from_sheet l = []))"
proof -
  let ?l = "read_lead cols r"
  let ?body = "build_email_body (company ?l) [] (r_first_line rec) (website ?l) (from_name a)"
  from assms(1) have w: "website ?l = ''nan''"
    by (simp add: read_lead_def row_get_def py_str_def py_strip_nan)
  from assms(2) have c: "compose_lead e a n ?l = Inr (rec, evs)"
    by (simp add: row_outcome_Some)
  from c obtain o' h' b' e1 e2 where
    p: "personalise e a ?l = Inr ((o', h', b'), e1)"
    and rw: "r_website rec = website ?l"
    and d: "deliver e a ?l (r_subject rec) ?body = Inr (r_result rec, e2)"
    and v: "evs = e1 @ e2"
    by (rule compose_lead_Inr)
  have s: "suffix (''Website noted: nan'' @ nl) ?body"
    using website_line [of "website ?l" "company ?l" "[]" "r_first_line rec" "from_name a"]
    by (simp add: w)
  from p d v have t: "\<exists>x evs1 evs2. personalise e a ?l = Inr (x, evs1) \<and>
      deliver e a ?l (r_subject rec) ?body = Inr (r_result rec, evs2) \<and> evs = evs1 @ evs2"
    by blast
  have f: "\<exists>rest. evs = HttpGet ''http://nan'' # rest" if "opener_from_sheet ?l = []"
  proof -
    from that p w obtain b evs1 where fr: "fetch_site_blurb e ''nan'' = Inr (b, evs1)"
      and e1: "e1 = evs1 @ snd (gpt_company_personalization e (company ?l) ''nan'' b (role a))"
      by (auto simp: personalise_def Let_def split_beta split: sum.splits)
    from fetch_nan_first [OF fr] obtain rest where "evs1 = HttpGet ''http://nan'' # rest"
      by blast
    with e1 v show ?thesis by simp
  qed
  have g: "filter is_fetch evs = []" if "opener_from_sheet ?l \<noteq> []"
    using sheet_row_events [OF assms(2) that] by simp
  have o: "opener_from_sheet ?l = []" if "r ''First Line'' = Some NaN"
    using that by (simp add: read_lead_def row_get_def isna_def)
  from w rw s t f g o show ?thesis by (simp add: Let_def)
qed

theorem missing_website_is_nan_witness:
  "acme_row ''Website'' = Some NaN \<and>
   processed_with (row_outcome offline preview_args lead_columns 0 acme_row)
     (\<lambda>rec evs. r_website rec = ''nan'' \<and> (\<exists>rest. evs = HttpGet ''http://nan'' # rest))"
proof -
  let ?l = "read_lead lead_columns acme_row"
  have h0: "acme_row ''Website'' = Some NaN" by (simp add: acme_row_def)
  obtain rec evs
    where h1: "row_outcome offline preview_args lead_columns 0 acme_row = Inr (Some (rec, evs))"
    using offline_dry_run_processes [OF preview_args_dry acme_lead_kept] by blast
  have e: "opener_from_sheet ?l = []" by (simp add: acme_lead)
  have "r_website rec = ''nan'' \<and> (\<exists>rest. evs = HttpGet ''http://nan'' # rest)"
    using missing_website_is_nan [OF h0 h1] e unfolding Let_def by blast
  with h1 have "processed_with (row_outcome offline preview_args lead_columns 0 acme_row)
     (\<lambda>rec evs. r_website rec = ''nan'' \<and> (\<exists>rest. evs = HttpGet ''http://nan'' # rest))"
    by (rule processed_withI)
  with h0 show ?thesis by (rule conjI)
qed

lemma site_missing_sheet_lead:
  "read_lead lead_columns site_missing_sheet_row =
     \<lparr>company = ''Acme Capital'', email = ''a@acme.com'', website = ''nan'',
      opener_from_sheet = ''We like your Growth Equity work'', status = ''nan''\<rparr>"
  by (simp add: read_lead_def lead_columns_def site_missing_sheet_row_def row_get_def py_str_def
      isna_def py_strip_def char_class_defs)

text \<open>
  Claim C10, as stated, fails: a row with a missing Website cell and a first-line override
  is processed with the website \<^verbatim>\<open>nan\<close> and without any request.
\<close>

theorem missing_website_not_fetched:
  "site_missing_sheet_row ''Website'' = Some NaN \<and>
   website (read_lead lead_columns site_missing_sheet_row) = ''nan'' \<and>
   processed_with (row_outcome offline preview_args lead_columns 0 site_missing_sheet_row)
     (\<lambda>rec evs. r_website rec = ''nan'' \<and> filter is_fetch evs = [])"
proof -
  let ?l = "read_lead lead_columns site_missing_sheet_row"
  have h0: "site_missing_sheet_row ''Website'' = Some NaN"
    by (simp add: site_missing_sheet_row_def)
  have w: "website ?l = ''nan''" by (simp add: site_missing_sheet_lead)
  have k: "\<not> skip_lead ?l"
    by (simp add: site_missing_sheet_lead skip_lead_def py_lower_def char_class_defs)
  obtain rec evs
    where h1: "row_outcome offline preview_args lead_columns 0 site_missing_sheet_row =
                 Inr (Some (rec, evs))"
    using offline_dry_run_processes [OF preview_args_dry k] by blast
  have s: "opener_from_sheet ?l \<noteq> []" by (simp add: site_missing_sheet_lead)
  from h1 have "compose_lead offline preview_args 0 ?l = Inr (rec, evs)"
    by (simp add: row_outcome_Some)
  then have "r_website rec = website ?l" by (rule compose_lead_Inr)
  with w sheet_row_events [OF h1 s]
  have "r_website rec = ''nan'' \<and> filter is_fetch evs = []" by simp
  with h1 have "processed_with
     (row_outcome offline preview_args lead_columns 0 site_missing_sheet_row)
     (\<lambda>rec evs. r_website rec = ''nan'' \<and> filter is_fetch evs = [])"
    by (rule processed_withI)
  with h0 w show ?thesis by simp
qed

lemma blank_company_lead:
  "read_lead lead_columns blank_company_row =
     \<lparr>company = ''nan'', email = ''a@acme.com'', website = ''acme.com'',
      opener_from_sheet = [], status = ''nan''\<rparr>"
  by (simp add: read_lead_def lead_columns_def blank_company_row_def row_get_def py_str_def
      isna_def py_strip_def char_class_defs)

lemma blank_company_kept: "\<not> skip_lead (read_lead lead_columns blank_company_row)"
  by (simp add: blank_company_lead skip_lead_def py_lower_def char_class_defs)

text \<open>
  Claim C1 on a row whose Company cell is blank: the company reads as the text
  \<^verbatim>\<open>nan\<close> and the skip test is not taken, so the row goes through the loop body;
  when that raises nothing, the row is logged with the company \<^verbatim>\<open>nan\<close> and counts
  as processed.
\<close>

theorem blank_company_processed:
  "blank_company_row ''Company'' = Some NaN \<and>
   company (read_lead lead_columns blank_company_row) = ''nan'' \<and>
   \<not> skip_lead (read_lead lead_columns blank_company_row) \<and>
   row_outcome e a lead_columns n blank_company_row =
     (case compose_lead e a n (read_lead lead_columns blank_company_row) of
        Inl f \<Rightarrow> Inl f
      | Inr c \<Rightarrow> Inr (Some c)) \<and>
   row_outcome e a lead_columns n blank_company_row \<noteq> Inr None \<and>
   (row_outcome e a lead_columns n blank_company_row = Inr (Some (rec, evs)) \<longrightarrow>
      r_company rec = ''nan'') \<and>
   (process_row e a lead_columns st blank_company_row = Inr st' \<longrightarrow>
      processed st' = Suc (processed st) \<and>
      length (sent_log st') = Suc (length (sent_log st)))"
proof -
  let ?l = "read_lead lead_columns blank_company_row"
  note k = blank_company_kept
  have c: "company ?l = ''nan''" by (simp add: blank_company_lead)
  have b: "blank_company_row ''Company'' = Some NaN" by (simp add: blank_company_row_def)
  have o: "row_outcome e a lead_columns n blank_company_row =
     (case compose_lead e a n ?l of Inl f \<Rightarrow> Inl f | Inr c \<Rightarrow> Inr (Some c))"
    using k by (rule row_outcome_kept)
  have nn: "row_outcome e a lead_columns n blank_company_row \<noteq> Inr None"
    using k by (simp add: row_outcome_None)
  have rc: "r_company rec = ''nan''"
    if "row_outcome e a lead_columns n blank_company_row = Inr (Some (rec, evs))"
  proof -
    from that have "compose_lead e a n ?l = Inr (rec, evs)" by (simp add: row_outcome_Some)
    then have "r_company rec = company ?l" by (rule compose_lead_Inr)
    with c show ?thesis by simp
  qed
  have pc: "processed st' = Suc (processed st) \<and>
            length (sent_log st') = Suc (length (sent_log st))"
    if "process_row e a lead_columns st blank_company_row = Inr st'"
    using processed_row_counts [OF k that] by auto
  from b c k o nn rc pc show ?thesis by blast
qed

theorem blank_company_processed_witness:
  "processed_with (row_outcome offline preview_args lead_columns 0 blank_company_row)
     (\<lambda>rec evs. r_company rec = ''nan'')"
proof -
  obtain rec evs
    where h1: "row_outcome offline preview_args lead_columns 0 blank_company_row =
                 Inr (Some (rec, evs))"
    using offline_dry_run_processes [OF preview_args_dry blank_company_kept] by blast
  have "r_company rec = ''nan''"
    using blank_company_processed [where e = offline and a = preview_args and n = 0
        and rec = rec and evs = evs] h1 by blast
  with h1 show ?thesis by (rule processed_withI)
qed

lemma process_row_log_length:
  "length (sent_log st) = processed st \<Longrightarrow> process_row e a cols st r = Inr st' \<Longrightarrow>
   length (sent_log st') = processed st'"
  by (auto simp: process_row_def split: sum.splits option.splits)

lemma run_rows_log_length:
  "length (sent_log st) = processed st \<Longrightarrow> run_rows e a cols st rs = Inr st' \<Longrightarrow>
   length (sent_log st') = processed st'"
proof (induction rs arbitrary: st)
  case Nil
  then show ?case by simp
next
  case (Cons r rs)
  show ?case
  proof (cases "max_rows a \<le> int (processed st)")
    case True
    with Cons.prems show ?thesis by simp
  next
    case False
    with Cons.prems(2) obtain st1 where p: "process_row e a cols st r = Inr st1"
      and q: "run_rows e a cols st1 rs = Inr st'"
      by (auto split: sum.splits)
    from Cons.prems(1) p have "length (sent_log st1) = processed st1"
      by (rule process_row_log_length)
    then show ?thesis using q by (rule Cons.IH)
  qed
qed

lemma main_Inr:
  assumes "main e a df old = Inr res"
  obtains st where "run_loop e a df = Inr st"
    and "res = \<lparr>log_file = write_log e old (sent_log st), run_records = sent_log st,
                 run_processed = processed st, run_events = events st\<rparr>"
  using assms by (auto simp: main_def split: if_splits option.splits sum.splits)

lemma offline_dry_run_loops:
  "dry_run a \<Longrightarrow> \<exists>st'. run_rows offline a cols st rs = Inr st'"
proof (induction rs arbitrary: st)
  case Nil
  then show ?case by simp
next
  case (Cons r rs)
  obtain st1 where "process_row offline a cols st r = Inr st1"
  proof (cases "skip_lead (read_lead cols r)")
    case True
    then show ?thesis using that skipped_row_unchanged by blast
  next
    case False
    with Cons.prems obtain rec evs
      where "row_outcome offline a cols (processed st) r = Inr (Some (rec, evs))"
      using offline_dry_run_processes by blast
    then show ?thesis using that by (simp add: process_row_def)
  qed
  with Cons show ?case by simp
qed

text \<open>
  Claim C8. A run that reaches its end has gone through the loop without an exception
  and writes the log once: what the file held, then the header (timestamp, company,
  email, website, greeting, first_line, subject, result) when the file did not exist,
  then one line with these eight values for each record of the run. A second run on the
  resulting file appends its lines only.
\<close>

theorem log_is_appended:
  assumes "main e a df old = Inr res"
    and "main e a' df' (Some (log_file res)) = Inr res'"
  shows "log_file res =
           (case old of
              None \<Rightarrow> csv_line e [''timestamp'', ''company'', ''email'', ''website'',
                                 ''greeting'', ''first_line'', ''subject'', ''result'']
            | Some c \<Rightarrow> c)
           @ concat (map (\<lambda>x. csv_line e [r_timestamp x, r_company x, r_email x, r_website x,
                                           r_greeting x, r_first_line x, r_subject x,
                                           r_result x])
                       (run_records res)) \<and>
         log_file res' =
           log_file res
           @ concat (map (\<lambda>x. csv_line e [r_timestamp x, r_company x, r_email x, r_website x,
                                           r_greeting x, r_first_line x, r_subject x,
                                           r_result x])
                       (run_records res')) \<and>
         run_loop e a df =
           Inr \<lparr>sent_log = run_records res, processed = run_processed res,
                events = run_events res\<rparr> \<and>
         length (run_records res) = run_processed res"
proof -
  from assms(1) obtain st where l: "run_loop e a df = Inr st"
    and r: "res = \<lparr>log_file = write_log e old (sent_log st), run_records = sent_log st,
                    run_processed = processed st, run_events = events st\<rparr>"
    by (rule main_Inr)
  from assms(2) obtain st2 where l': "run_loop e a' df' = Inr st2" and
    r': "res' = \<lparr>log_file = write_log e (Some (log_file res)) (sent_log st2),
                  run_records = sent_log st2, run_processed = processed st2,
                  run_events = events st2\<rparr>"
    by (rule main_Inr)
  from l have "length (sent_log st) = processed st"
    unfolding run_loop_def by (rule run_rows_log_length [rotated]) simp
  with l r r' show ?thesis
    by (simp add: write_log_def fieldnames_def record_values_def split: option.splits)
qed

theorem log_is_appended_witness:
  "\<exists>res res'.
     main offline preview_args acme_table None = Inr res \<and>
     main offline preview_args acme_table (Some (log_file res)) = Inr res' \<and>
     log_file res' =
       log_file res
       @ concat (map (\<lambda>x. csv_line offline [r_timestamp x, r_company x, r_email x,
                                             r_website x, r_greeting x, r_first_line x,
                                             r_subject x, r_result x])
                   (run_records res'))"
proof -
  obtain st where "run_loop offline preview_args acme_table = Inr st"
    unfolding run_loop_def using offline_dry_run_loops [OF preview_args_dry] by blast
  then have m: "\<exists>res. main offline preview_args acme_table old = Inr res" for old
    by (simp add: main_def preview_args_def acme_table_def lead_columns_def offline_def)
  from m obtain res where m1: "main offline preview_args acme_table None = Inr res" by blast
  from m obtain res'
    where m2: "main offline preview_args acme_table (Some (log_file res)) = Inr res'" by blast
  from log_is_appended [OF m1 m2] m1 m2 show ?thesis by blast
qed

end
